theory Spec2Isabelle
  imports Main "HOL-Library.Word" "HOL-Library.AList"
begin

section \<open>The hprof analyser of docs/dump/analyze\_hprof.py\<close>

text \<open>
  The program is one function, \<^verbatim>\<open>analyze_hprof(filepath)\<close>: it opens a binary file,
  scans a NUL-terminated header, reads the id size and a timestamp, then goes over the
  top-level records, filling dictionaries, counters and lists, and finally prints a report.

  The embedding keeps the file as a list of bytes with a cursor, the dictionaries and
  counters as association lists in Python's insertion order, every \<^verbatim>\<open>struct.error\<close>,
  \<^verbatim>\<open>ValueError\<close> and \<^verbatim>\<open>OverflowError\<close> as a value of type \<open>error\<close>, and the report as structured rows (the
  text layout of the \<^verbatim>\<open>print\<close> calls, with its shortened class names, is not modelled).

  Two things of the Python runtime are outside the model. Text is kept as the bytes of
  the record, one character for each byte: for ASCII payloads this is what
  \<^verbatim>\<open>decode('utf-8', errors='replace')\<close> returns, and \<^verbatim>\<open>lower()\<close> is the ASCII one; for a
  payload with a byte above 127 the text of the code is another one. A read of at most
  \<^verbatim>\<open>sys.maxsize\<close> bytes is never refused for lack of memory (\<^verbatim>\<open>MemoryError\<close>, or
  \<^verbatim>\<open>OverflowError\<close> for a block too large to allocate).
\<close>

subsection \<open>Constants\<close>

type_synonym byte = "8 word"

definition TAG_STRING :: nat where [simp]: "TAG_STRING = 0x01"
definition TAG_LOAD_CLASS :: nat where [simp]: "TAG_LOAD_CLASS = 0x02"
definition TAG_HEAP_DUMP :: nat where [simp]: "TAG_HEAP_DUMP = 0x0C"
definition TAG_HEAP_DUMP_SEGMENT :: nat where [simp]: "TAG_HEAP_DUMP_SEGMENT = 0x1C"

definition SUB_ROOT_JNI_GLOBAL :: nat where [simp]: "SUB_ROOT_JNI_GLOBAL = 0x01"
definition SUB_ROOT_JNI_LOCAL :: nat where [simp]: "SUB_ROOT_JNI_LOCAL = 0x02"
definition SUB_ROOT_JAVA_FRAME :: nat where [simp]: "SUB_ROOT_JAVA_FRAME = 0x03"
definition SUB_ROOT_NATIVE_STACK :: nat where [simp]: "SUB_ROOT_NATIVE_STACK = 0x04"
definition SUB_ROOT_STICKY_CLASS :: nat where [simp]: "SUB_ROOT_STICKY_CLASS = 0x05"
definition SUB_ROOT_THREAD_BLOCK :: nat where [simp]: "SUB_ROOT_THREAD_BLOCK = 0x06"
definition SUB_ROOT_MONITOR_USED :: nat where [simp]: "SUB_ROOT_MONITOR_USED = 0x07"
definition SUB_ROOT_THREAD_OBJ :: nat where [simp]: "SUB_ROOT_THREAD_OBJ = 0x08"
definition SUB_CLASS_DUMP :: nat where [simp]: "SUB_CLASS_DUMP = 0x20"
definition SUB_INSTANCE_DUMP :: nat where [simp]: "SUB_INSTANCE_DUMP = 0x21"
definition SUB_OBJ_ARRAY_DUMP :: nat where [simp]: "SUB_OBJ_ARRAY_DUMP = 0x22"
definition SUB_PRIM_ARRAY_DUMP :: nat where [simp]: "SUB_PRIM_ARRAY_DUMP = 0x23"

definition BASIC_TYPE_SIZES :: "(nat \<times> nat) list" where
  "BASIC_TYPE_SIZES =
     [(2, 4), (4, 1), (5, 2), (6, 4), (7, 8), (8, 1), (9, 2), (10, 4), (11, 8)]"

text \<open>\<^verbatim>\<open>d.get(k, default)\<close> on a dictionary kept as an association list.\<close>

definition dict_get :: "('k \<times> 'v) list \<Rightarrow> 'k \<Rightarrow> 'v \<Rightarrow> 'v" where
  "dict_get d k dflt = (case map_of d k of None \<Rightarrow> dflt | Some v \<Rightarrow> v)"

text \<open>
  \<^verbatim>\<open>d[k] = v\<close>: a key already present keeps its place and takes the new value, a new
  key goes to the end. This is \<open>AList.update\<close>.
\<close>

definition dict_set :: "('k \<times> 'v) list \<Rightarrow> 'k \<Rightarrow> 'v \<Rightarrow> ('k \<times> 'v) list" where
  "dict_set d k v = AList.update k v d"

text \<open>\<^verbatim>\<open>c[k] += 1\<close> on a \<^verbatim>\<open>Counter\<close>: a missing key counts as 0.\<close>

definition counter_incr :: "('k \<times> nat) list \<Rightarrow> 'k \<Rightarrow> ('k \<times> nat) list" where
  "counter_incr c k = dict_set c k (dict_get c k 0 + 1)"

subsection \<open>Strings\<close>

text \<open>\<^verbatim>\<open>needle in s\<close> on strings: \<open>needle\<close> occurs in \<open>s\<close> as a contiguous block.\<close>

fun str_in :: "string \<Rightarrow> string \<Rightarrow> bool" where
  "str_in needle [] = (needle = [])"
| "str_in needle (c # cs) =
     (take (length needle) (c # cs) = needle \<or> str_in needle cs)"

definition lower_char :: "char \<Rightarrow> char" where
  "lower_char c =
     (if 65 \<le> (of_char c :: nat) \<and> (of_char c :: nat) \<le> 90
      then char_of ((of_char c :: nat) + 32) else c)"

definition lower :: "string \<Rightarrow> string" where
  "lower s = map lower_char s"

definition hex_digit :: "nat \<Rightarrow> char" where
  "hex_digit d = (if d < 10 then char_of (48 + d) else char_of (87 + d))"

fun hex_digits :: "nat \<Rightarrow> string" where
  "hex_digits n =
     (if n < 16 then [hex_digit n] else hex_digits (n div 16) @ [hex_digit (n mod 16)])"

declare hex_digits.simps [simp del]

text \<open>The format \<^verbatim>\<open>{n:#x}\<close>: lower-case hexadecimal after \<^verbatim>\<open>0x\<close>.\<close>

definition hex :: "nat \<Rightarrow> string" where
  "hex n = ''0x'' @ hex_digits n"

text \<open>The text of a STRING record (see the note on decoding above).\<close>

definition decode :: "byte list \<Rightarrow> string" where
  "decode b = map (\<lambda>x. char_of (unat x)) b"

subsection \<open>The analyser's state and the file\<close>

datatype error = StructError | ValueError | OverflowError

text \<open>
  The local variables of \<^verbatim>\<open>analyze_hprof\<close> that live across the iterations, and the
  position of the open file (\<^verbatim>\<open>f.tell()\<close>). The file's bytes never change and are
  passed beside the state, as \<open>f\<close>; \<open>id_size\<close> is passed the same way once read.
\<close>

record hstate =
  pos :: nat
  strings :: "(nat \<times> string) list"
  class_names :: "(nat \<times> nat) list"
  class_id_to_serial :: "(nat \<times> nat) list"
  class_id_to_name :: "(nat \<times> string) list"
  instance_counts :: "(string \<times> nat) list"
  gc_roots :: "(string \<times> nat) list"
  activity_instances :: "(nat \<times> string) list"
  service_instances :: "(nat \<times> string) list"
  scope_instances :: "(nat \<times> string) list"
  view_instances :: "(nat \<times> string) list"
  class_super :: "(nat \<times> nat) list"
  record_count :: nat
  heap_records :: nat

text \<open>The assignments of lines 52 to 67 and 92 to 93, with the file just opened.\<close>

definition init_state :: hstate where
  "init_state =
     \<lparr>pos = 0, strings = [], class_names = [], class_id_to_serial = [],
      class_id_to_name = [], instance_counts = [], gc_roots = [],
      activity_instances = [], service_instances = [], scope_instances = [],
      view_instances = [], class_super = [], record_count = 0, heap_records = 0\<rparr>"

text \<open>
  \<^verbatim>\<open>f.read(n)\<close> on the buffered binary file: up to \<open>n\<close> bytes from the cursor, fewer at
  the end of the file, none at or beyond it; \<open>n = -1\<close> reads to the end of the file; a
  smaller \<open>n\<close> raises \<^verbatim>\<open>ValueError\<close> (read length must be non-negative or -1), and
  an \<open>n\<close> above \<^verbatim>\<open>sys.maxsize\<close>, which is \<open>2 ^ 63 - 1\<close>, raises \<^verbatim>\<open>OverflowError\<close>.
\<close>

definition maxsize :: int where
  "maxsize = 2 ^ 63 - 1"

definition f_read :: "byte list \<Rightarrow> int \<Rightarrow> hstate \<Rightarrow> error + (byte list \<times> hstate)" where
  "f_read f n st =
     (if n < - 1 then Inl ValueError
      else if n > maxsize then Inl OverflowError
      else let b = (if n = - 1 then drop (pos st) f else take (nat n) (drop (pos st) f))
           in Inr (b, st\<lparr>pos := pos st + length b\<rparr>))"

text \<open>\<^verbatim>\<open>f.seek(p)\<close>: the cursor may be set beyond the end of the file.\<close>

definition f_seek :: "nat \<Rightarrow> hstate \<Rightarrow> hstate" where
  "f_seek p st = st\<lparr>pos := p\<rparr>"

text \<open>Big-endian unsigned value of a block of bytes.\<close>

definition be_nat :: "byte list \<Rightarrow> nat" where
  "be_nat b = foldl (\<lambda>a x. a * 256 + unat x) 0 b"

text \<open>
  \<^verbatim>\<open>struct.unpack(fmt, b)[0]\<close> for the formats \<^verbatim>\<open>B\<close>, \<^verbatim>\<open>>H\<close>, \<^verbatim>\<open>>I\<close>, \<^verbatim>\<open>>Q\<close> of
  \<open>n = 1, 2, 4, 8\<close> bytes: \<^verbatim>\<open>struct.error\<close> unless \<open>b\<close> has exactly \<open>n\<close> bytes.
\<close>

definition unpack :: "nat \<Rightarrow> byte list \<Rightarrow> error + nat" where
  "unpack n b = (if length b = n then Inr (be_nat b) else Inl StructError)"

text \<open>Sequencing of two steps that may raise.\<close>

definition bindE :: "error + ('a \<times> hstate) \<Rightarrow> ('a \<Rightarrow> hstate \<Rightarrow> error + 'b) \<Rightarrow> error + 'b" where
  "bindE r k = (case r of Inl e \<Rightarrow> Inl e | Inr (x, st) \<Rightarrow> k x st)"

text \<open>\<^verbatim>\<open>struct.unpack(fmt, f.read(n))[0]\<close>.\<close>

definition read_uint :: "byte list \<Rightarrow> nat \<Rightarrow> hstate \<Rightarrow> error + (nat \<times> hstate)" where
  "read_uint f n st =
     bindE (f_read f (int n) st)
       (\<lambda>b st. case unpack n b of Inl e \<Rightarrow> Inl e | Inr v \<Rightarrow> Inr (v, st))"

text \<open>The closure \<^verbatim>\<open>read_id\<close> of lines 86 to 90.\<close>

definition read_id :: "byte list \<Rightarrow> nat \<Rightarrow> hstate \<Rightarrow> error + (nat \<times> hstate)" where
  "read_id f id_size st = (if id_size = 4 then read_uint f 4 st else read_uint f 8 st)"

subsection \<open>The sub-records of a heap dump\<close>

text \<open>The three iterations of a CLASS\_DUMP (lines 183 to 199), each over \<^verbatim>\<open>range(count)\<close>.\<close>

fun constant_pool :: "byte list \<Rightarrow> nat \<Rightarrow> nat \<Rightarrow> hstate \<Rightarrow> error + (unit \<times> hstate)" where
  "constant_pool f id_size 0 st = Inr ((), st)"
| "constant_pool f id_size (Suc n) st =
     bindE (read_uint f 2 st) (\<lambda>idx st.
     bindE (read_uint f 1 st) (\<lambda>tp st.
     bindE (f_read f (int (dict_get BASIC_TYPE_SIZES tp id_size)) st) (\<lambda>_ st.
     constant_pool f id_size n st)))"

fun static_fields :: "byte list \<Rightarrow> nat \<Rightarrow> nat \<Rightarrow> hstate \<Rightarrow> error + (unit \<times> hstate)" where
  "static_fields f id_size 0 st = Inr ((), st)"
| "static_fields f id_size (Suc n) st =
     bindE (read_id f id_size st) (\<lambda>name_id st.
     bindE (read_uint f 1 st) (\<lambda>tp st.
     bindE (f_read f (int (dict_get BASIC_TYPE_SIZES tp id_size)) st) (\<lambda>_ st.
     static_fields f id_size n st)))"

fun instance_fields :: "byte list \<Rightarrow> nat \<Rightarrow> nat \<Rightarrow> hstate \<Rightarrow> error + (unit \<times> hstate)" where
  "instance_fields f id_size 0 st = Inr ((), st)"
| "instance_fields f id_size (Suc n) st =
     bindE (read_id f id_size st) (\<lambda>name_id st.
     bindE (read_uint f 1 st) (\<lambda>tp st.
     instance_fields f id_size n st))"

text \<open>
  Lines 208 to 220: the name of the instance's class, its count, and the
  \<^verbatim>\<open>if\<close>/\<^verbatim>\<open>elif\<close> chain over the four lists of key classes.
\<close>

definition class_name_of :: "hstate \<Rightarrow> nat \<Rightarrow> string" where
  "class_name_of st class_id = dict_get (class_id_to_name st) class_id (''unknown_'' @ hex class_id)"

text \<open>The four conditions of lines 213, 215, 217 and 219, each on its own.\<close>

definition activity_rule :: "string \<Rightarrow> bool" where
  "activity_rule class_name \<longleftrightarrow>
     str_in ''activity'' (lower class_name) \<and> str_in ''me/ikate/findmy'' class_name"

definition service_rule :: "string \<Rightarrow> bool" where
  "service_rule class_name \<longleftrightarrow>
     str_in ''service'' (lower class_name) \<and> str_in ''me/ikate/findmy'' class_name"

definition scope_rule :: "string \<Rightarrow> bool" where
  "scope_rule class_name \<longleftrightarrow>
     str_in ''coroutinescope'' (lower class_name) \<or> str_in ''supervisorjob'' (lower class_name)
       \<or> str_in ''jobimpl'' (lower class_name)"

definition view_rule :: "string \<Rightarrow> bool" where
  "view_rule class_name \<longleftrightarrow>
     (str_in ''view'' (lower class_name) \<or> str_in ''fragment'' (lower class_name))
       \<and> str_in ''me/ikate/findmy'' class_name"

definition check_key_class :: "nat \<Rightarrow> string \<Rightarrow> hstate \<Rightarrow> hstate" where
  "check_key_class obj_id class_name st =
     (if activity_rule class_name
      then st\<lparr>activity_instances := activity_instances st @ [(obj_id, class_name)]\<rparr>
      else if service_rule class_name
      then st\<lparr>service_instances := service_instances st @ [(obj_id, class_name)]\<rparr>
      else if scope_rule class_name
      then st\<lparr>scope_instances := scope_instances st @ [(obj_id, class_name)]\<rparr>
      else if view_rule class_name
      then st\<lparr>view_instances := view_instances st @ [(obj_id, class_name)]\<rparr>
      else st)"

definition count_instance :: "nat \<Rightarrow> nat \<Rightarrow> hstate \<Rightarrow> hstate" where
  "count_instance obj_id class_id st =
     (let class_name = class_name_of st class_id in
      check_key_class obj_id class_name
        (st\<lparr>instance_counts := counter_incr (instance_counts st) class_name\<rparr>))"

text \<open>\<^verbatim>\<open>gc_roots.append((root_type, obj_id))\<close>.\<close>

definition add_root :: "string \<Rightarrow> nat \<Rightarrow> hstate \<Rightarrow> hstate" where
  "add_root root_type obj_id st = st\<lparr>gc_roots := gc_roots st @ [(root_type, obj_id)]\<rparr>"

text \<open>
  One pass of the body of the inner loop after the sub-tag is read (lines 128 to 275):
  \<open>Next\<close> when the loop goes on, \<open>Break\<close> after the \<^verbatim>\<open>break\<close> of the last branch.
\<close>

datatype flow = Next hstate | Break hstate

definition sub_record :: "byte list \<Rightarrow> nat \<Rightarrow> nat \<Rightarrow> nat \<Rightarrow> hstate \<Rightarrow> error + flow" where
  "sub_record f id_size end_pos sub_tag st =
    (if sub_tag = SUB_ROOT_JNI_GLOBAL then
       bindE (read_id f id_size st) (\<lambda>obj_id st.
       bindE (read_id f id_size st) (\<lambda>jni_ref st.
       Inr (Next (add_root ''JNI_GLOBAL'' obj_id st))))
     else if sub_tag = SUB_ROOT_JNI_LOCAL then
       bindE (read_id f id_size st) (\<lambda>obj_id st.
       bindE (read_uint f 4 st) (\<lambda>thread_serial st.
       bindE (read_uint f 4 st) (\<lambda>frame_num st.
       Inr (Next (add_root ''JNI_LOCAL'' obj_id st)))))
     else if sub_tag = SUB_ROOT_JAVA_FRAME then
       bindE (read_id f id_size st) (\<lambda>obj_id st.
       bindE (read_uint f 4 st) (\<lambda>thread_serial st.
       bindE (read_uint f 4 st) (\<lambda>frame_num st.
       Inr (Next (add_root ''JAVA_FRAME'' obj_id st)))))
     else if sub_tag = SUB_ROOT_NATIVE_STACK then
       bindE (read_id f id_size st) (\<lambda>obj_id st.
       bindE (read_uint f 4 st) (\<lambda>thread_serial st.
       Inr (Next (add_root ''NATIVE_STACK'' obj_id st))))
     else if sub_tag = SUB_ROOT_STICKY_CLASS then
       bindE (read_id f id_size st) (\<lambda>obj_id st.
       Inr (Next (add_root ''STICKY_CLASS'' obj_id st)))
     else if sub_tag = SUB_ROOT_THREAD_BLOCK then
       bindE (read_id f id_size st) (\<lambda>obj_id st.
       bindE (read_uint f 4 st) (\<lambda>thread_serial st.
       Inr (Next (add_root ''THREAD_BLOCK'' obj_id st))))
     else if sub_tag = SUB_ROOT_MONITOR_USED then
       bindE (read_id f id_size st) (\<lambda>obj_id st.
       Inr (Next (add_root ''MONITOR_USED'' obj_id st)))
     else if sub_tag = SUB_ROOT_THREAD_OBJ then
       bindE (read_id f id_size st) (\<lambda>obj_id st.
       bindE (read_uint f 4 st) (\<lambda>thread_serial st.
       bindE (read_uint f 4 st) (\<lambda>stack_serial st.
       Inr (Next (add_root ''THREAD_OBJ'' obj_id st)))))
     else if sub_tag = SUB_CLASS_DUMP then
       bindE (read_id f id_size st) (\<lambda>class_id st.
       bindE (read_uint f 4 st) (\<lambda>stack_serial st.
       bindE (read_id f id_size st) (\<lambda>super_class_id st.
       bindE (Inr ((), st\<lparr>class_super := dict_set (class_super st) class_id super_class_id\<rparr>))
         (\<lambda>_ st.
       bindE (read_id f id_size st) (\<lambda>loader_id st.
       bindE (read_id f id_size st) (\<lambda>signers_id st.
       bindE (read_id f id_size st) (\<lambda>prot_domain_id st.
       bindE (read_id f id_size st) (\<lambda>reserved1 st.
       bindE (read_id f id_size st) (\<lambda>reserved2 st.
       bindE (read_uint f 4 st) (\<lambda>instance_size st.
       bindE (read_uint f 2 st) (\<lambda>cp_count st.
       bindE (constant_pool f id_size cp_count st) (\<lambda>_ st.
       bindE (read_uint f 2 st) (\<lambda>sf_count st.
       bindE (static_fields f id_size sf_count st) (\<lambda>_ st.
       bindE (read_uint f 2 st) (\<lambda>if_count st.
       bindE (instance_fields f id_size if_count st) (\<lambda>_ st.
       Inr (Next st)))))))))))))))))
     else if sub_tag = SUB_INSTANCE_DUMP then
       bindE (read_id f id_size st) (\<lambda>obj_id st.
       bindE (read_uint f 4 st) (\<lambda>stack_serial st.
       bindE (read_id f id_size st) (\<lambda>class_id st.
       bindE (read_uint f 4 st) (\<lambda>data_len st.
       bindE (f_read f (int data_len) st) (\<lambda>_ st.
       Inr (Next (count_instance obj_id class_id st)))))))
     else if sub_tag = SUB_OBJ_ARRAY_DUMP then
       bindE (read_id f id_size st) (\<lambda>obj_id st.
       bindE (read_uint f 4 st) (\<lambda>stack_serial st.
       bindE (read_uint f 4 st) (\<lambda>num_elements st.
       bindE (read_id f id_size st) (\<lambda>array_class_id st.
       bindE (f_read f (int (num_elements * id_size)) st) (\<lambda>_ st.
       Inr (Next st))))))
     else if sub_tag = SUB_PRIM_ARRAY_DUMP then
       bindE (read_id f id_size st) (\<lambda>obj_id st.
       bindE (read_uint f 4 st) (\<lambda>stack_serial st.
       bindE (read_uint f 4 st) (\<lambda>num_elements st.
       bindE (read_uint f 1 st) (\<lambda>elem_type st.
       bindE (f_read f (int (num_elements * dict_get BASIC_TYPE_SIZES elem_type 1)) st) (\<lambda>_ st.
       Inr (Next st))))))
     else if sub_tag = 0xFF then
       bindE (read_id f id_size st) (\<lambda>obj_id st.
       Inr (Next (add_root ''UNKNOWN'' obj_id st)))
     else if sub_tag = 0x89 then
       bindE (read_id f id_size st) (\<lambda>obj_id st. Inr (Next st))
     else if sub_tag = 0x8B then
       bindE (read_id f id_size st) (\<lambda>obj_id st. Inr (Next st))
     else if sub_tag = 0x8D then
       bindE (read_id f id_size st) (\<lambda>obj_id st. Inr (Next st))
     else if sub_tag = 0xFE then
       bindE (read_uint f 4 st) (\<lambda>heap_type st.
       bindE (read_id f id_size st) (\<lambda>name_id st. Inr (Next st)))
     else if sub_tag = 0xC3 then
       bindE (read_id f id_size st) (\<lambda>obj_id st. Inr (Next st))
     else if sub_tag = 0x8A then
       bindE (read_id f id_size st) (\<lambda>obj_id st. Inr (Next st))
     else if sub_tag = 0x90 then
       bindE (read_id f id_size st) (\<lambda>obj_id st. Inr (Next st))
     else Inr (Break (f_seek end_pos st)))"

subsection \<open>The cursor only moves forward\<close>

lemma bindE_InrE:
  assumes "bindE r k = Inr y"
  obtains x st1 where "r = Inr (x, st1)" and "k x st1 = Inr y"
  using assms by (auto simp: bindE_def split: sum.splits)

lemma f_read_pos: "f_read f n st = Inr (b, st1) \<Longrightarrow> pos st \<le> pos st1"
  by (auto simp: f_read_def Let_def split: if_splits)

lemma read_uint_pos: "read_uint f n st = Inr (v, st1) \<Longrightarrow> pos st1 = pos st + n"
  by (auto simp: read_uint_def f_read_def unpack_def Let_def bindE_def split: if_splits)

lemma read_uint_le: "read_uint f n st = Inr (v, st1) \<Longrightarrow> pos st \<le> pos st1"
  by (simp add: read_uint_pos)

lemma read_id_pos:
  "read_id f id_size st = Inr (v, st1) \<Longrightarrow> pos st1 = pos st + (if id_size = 4 then 4 else 8)"
  by (auto simp: read_id_def read_uint_pos split: if_splits)

lemma read_id_le: "read_id f id_size st = Inr (v, st1) \<Longrightarrow> pos st \<le> pos st1"
  by (simp add: read_id_pos)

lemma constant_pool_le: "constant_pool f id_size n st = Inr (u, st1) \<Longrightarrow> pos st \<le> pos st1"
proof (induction n arbitrary: st u)
  case 0
  then show ?case by simp
next
  case (Suc n)
  from Suc.prems show ?case
    by (auto elim!: bindE_InrE dest!: read_uint_le f_read_pos Suc.IH)
qed

lemma static_fields_le: "static_fields f id_size n st = Inr (u, st1) \<Longrightarrow> pos st \<le> pos st1"
proof (induction n arbitrary: st u)
  case 0
  then show ?case by simp
next
  case (Suc n)
  from Suc.prems show ?case
    by (auto elim!: bindE_InrE dest!: read_uint_le read_id_le f_read_pos Suc.IH)
qed

lemma instance_fields_le: "instance_fields f id_size n st = Inr (u, st1) \<Longrightarrow> pos st \<le> pos st1"
proof (induction n arbitrary: st u)
  case 0
  then show ?case by simp
next
  case (Suc n)
  from Suc.prems show ?case
    by (auto elim!: bindE_InrE dest!: read_uint_le read_id_le Suc.IH)
qed

lemma pos_check_key_class [simp]: "pos (check_key_class obj_id class_name st) = pos st"
  by (simp add: check_key_class_def Let_def)

lemma pos_count_instance [simp]: "pos (count_instance obj_id class_id st) = pos st"
  by (simp add: count_instance_def Let_def)

lemma pos_add_root [simp]: "pos (add_root root_type obj_id st) = pos st"
  by (simp add: add_root_def)

lemma sub_record_le:
  assumes "sub_record f id_size end_pos sub_tag st = Inr (Next st1)"
  shows "pos st \<le> pos st1"
  using assms unfolding sub_record_def
  by (auto split: if_splits elim!: bindE_InrE
      dest!: read_uint_le read_id_le f_read_pos constant_pool_le static_fields_le
        instance_fields_le)

subsection \<open>The loop over the sub-records of one heap dump\<close>

text \<open>
  Lines 125 to 275: \<^verbatim>\<open>while f.tell() < end_pos\<close>, one sub-tag byte, one sub-record.
  The loop stops by its condition or by the \<^verbatim>\<open>break\<close> of the unknown sub-tag.
\<close>

function heap_loop :: "byte list \<Rightarrow> nat \<Rightarrow> nat \<Rightarrow> hstate \<Rightarrow> error + hstate" where
  "heap_loop f id_size end_pos st =
     (if pos st < end_pos then
        (case read_uint f 1 st of
           Inl e \<Rightarrow> Inl e
         | Inr (sub_tag, st1) \<Rightarrow>
             (case sub_record f id_size end_pos sub_tag st1 of
                Inl e \<Rightarrow> Inl e
              | Inr (Break st2) \<Rightarrow> Inr st2
              | Inr (Next st2) \<Rightarrow> heap_loop f id_size end_pos st2))
      else Inr st)"
  by pat_completeness auto
termination
proof (relation "measure (\<lambda>(f, id_size, end_pos, st). end_pos - pos st)")
  show "wf (measure (\<lambda>(f, id_size, end_pos, st). end_pos - pos st))"
    by simp
next
  fix f :: "byte list" and id_size end_pos :: nat and st st1 st2 :: hstate
    and x :: "nat \<times> hstate" and sub_tag :: nat and fl :: flow
  assume "pos st < end_pos"
    and "read_uint f 1 st = Inr x"
    and "(sub_tag, st1) = x"
    and "sub_record f id_size end_pos sub_tag st1 = Inr fl"
    and "fl = Next st2"
  then have "pos st1 = pos st + 1" and "pos st1 \<le> pos st2"
    using read_uint_pos [of f 1 st sub_tag st1] sub_record_le [of f id_size end_pos sub_tag st1 st2]
    by auto
  with \<open>pos st < end_pos\<close>
  show "((f, id_size, end_pos, st2), (f, id_size, end_pos, st)) \<in>
          measure (\<lambda>(f, id_size, end_pos, st). end_pos - pos st)"
    by simp
qed

declare heap_loop.simps [simp del]

lemma heap_loop_le: "heap_loop f id_size end_pos st = Inr st' \<Longrightarrow> pos st \<le> pos st'"
proof (induction f id_size end_pos st rule: heap_loop.induct)
  case (1 f id_size end_pos st)
  show ?case
  proof (cases "pos st < end_pos")
    case False
    with "1.prems" show ?thesis by (simp add: heap_loop.simps)
  next
    case True
    from "1.prems" True obtain sub_tag st1 fl
      where r: "read_uint f 1 st = Inr (sub_tag, st1)"
        and s: "sub_record f id_size end_pos sub_tag st1 = Inr fl"
      by (auto simp: heap_loop.simps [of f id_size end_pos st] split: sum.splits)
    from r have p1: "pos st1 = pos st + 1" by (rule read_uint_pos)
    show ?thesis
    proof (cases fl)
      case (Next st2)
      with "1.prems" True r s have "heap_loop f id_size end_pos st2 = Inr st'"
        by (simp add: heap_loop.simps [of f id_size end_pos st])
      with "1.IH" [OF True r refl s Next] have "pos st2 \<le> pos st'" by simp
      moreover from s Next have "pos st1 \<le> pos st2" by (simp add: sub_record_le)
      ultimately show ?thesis using p1 by simp
    next
      case (Break st2)
      with "1.prems" True r s have st': "st' = st2"
        by (simp add: heap_loop.simps [of f id_size end_pos st])
      from s Break have "st2 = f_seek end_pos st1"
        unfolding sub_record_def by (auto split: if_splits elim!: bindE_InrE)
      with st' True show ?thesis by (simp add: f_seek_def)
    qed
  qed
qed

subsection \<open>The top-level records\<close>

text \<open>Lines 116 to 119, the effect of a LOAD\_CLASS record once its fields are read.\<close>

definition load_class :: "nat \<Rightarrow> nat \<Rightarrow> nat \<Rightarrow> hstate \<Rightarrow> hstate" where
  "load_class serial class_obj_id name_id st =
     (let st = st\<lparr>class_names := dict_set (class_names st) serial name_id\<rparr>;
          st = st\<lparr>class_id_to_serial := dict_set (class_id_to_serial st) class_obj_id serial\<rparr>
      in case map_of (strings st) name_id of
           Some name \<Rightarrow> st\<lparr>class_id_to_name := dict_set (class_id_to_name st) class_obj_id name\<rparr>
         | None \<Rightarrow> st)"

text \<open>
  Lines 106 to 277, the dispatch on the tag of a record whose nine header bytes are
  read; \<open>len\<close> is the record's \<^verbatim>\<open>length\<close> field.
\<close>

definition record_body :: "byte list \<Rightarrow> nat \<Rightarrow> nat \<Rightarrow> nat \<Rightarrow> hstate \<Rightarrow> error + hstate" where
  "record_body f id_size tag len st =
     (if tag = TAG_STRING then
        bindE (read_id f id_size st) (\<lambda>str_id st.
        bindE (f_read f (int len - int id_size) st) (\<lambda>str_data st.
        Inr (st\<lparr>strings := dict_set (strings st) str_id (decode str_data)\<rparr>)))
      else if tag = TAG_LOAD_CLASS then
        bindE (read_uint f 4 st) (\<lambda>serial st.
        bindE (read_id f id_size st) (\<lambda>class_obj_id st.
        bindE (read_uint f 4 st) (\<lambda>stack_serial st.
        bindE (read_id f id_size st) (\<lambda>name_id st.
        Inr (load_class serial class_obj_id name_id st)))))
      else if tag = TAG_HEAP_DUMP \<or> tag = TAG_HEAP_DUMP_SEGMENT then
        (let st = st\<lparr>heap_records := heap_records st + 1\<rparr>;
             end_pos = pos st + len
         in heap_loop f id_size end_pos st)
      else
        bindE (f_read f (int len) st) (\<lambda>_ st. Inr st))"

lemma pos_load_class [simp]: "pos (load_class serial class_obj_id name_id st) = pos st"
  by (simp add: load_class_def Let_def split: option.splits)

lemma record_body_le: "record_body f id_size tag len st = Inr st' \<Longrightarrow> pos st \<le> pos st'"
  unfolding record_body_def
  by (auto split: if_splits elim!: bindE_InrE simp: Let_def
      dest!: read_uint_le read_id_le f_read_pos heap_loop_le)

text \<open>
  Lines 95 to 277: \<^verbatim>\<open>while True\<close>, left by \<^verbatim>\<open>break\<close> when the read of the tag byte
  returns nothing.
\<close>

function records_loop :: "byte list \<Rightarrow> nat \<Rightarrow> hstate \<Rightarrow> error + hstate" where
  "records_loop f id_size st =
     (case f_read f 1 st of
        Inl e \<Rightarrow> Inl e
      | Inr (tag_bytes, st1) \<Rightarrow>
          (if tag_bytes = [] then Inr st1
           else
             (case unpack 1 tag_bytes of
                Inl e \<Rightarrow> Inl e
              | Inr tag \<Rightarrow>
                  (case read_uint f 4 st1 of
                     Inl e \<Rightarrow> Inl e
                   | Inr (timestamp, st2) \<Rightarrow>
                       (case read_uint f 4 st2 of
                          Inl e \<Rightarrow> Inl e
                        | Inr (len, st3) \<Rightarrow>
                            (case record_body f id_size tag len
                                    (st3\<lparr>record_count := record_count st3 + 1\<rparr>) of
                               Inl e \<Rightarrow> Inl e
                             | Inr st4 \<Rightarrow> records_loop f id_size st4))))))"
  by pat_completeness auto
termination
proof (relation "measure (\<lambda>(f, id_size, st). length f - pos st)")
  show "wf (measure (\<lambda>(f, id_size, st). length f - pos st))"
    by simp
next
  fix f :: "byte list" and id_size tag timestamp len :: nat and st st1 st2 st3 st4 :: hstate
    and x :: "byte list \<times> hstate" and y z :: "nat \<times> hstate" and tag_bytes :: "byte list"
  assume "f_read f 1 st = Inr x" and "(tag_bytes, st1) = x" and "tag_bytes \<noteq> []"
    and "read_uint f 4 st1 = Inr y" and "(timestamp, st2) = y"
    and "read_uint f 4 st2 = Inr z" and "(len, st3) = z"
    and "record_body f id_size tag len (st3\<lparr>record_count := record_count st3 + 1\<rparr>) = Inr st4"
  then have "pos st < length f" and "pos st < pos st1" and "pos st1 \<le> pos st2"
    and "pos st2 \<le> pos st3" and "pos st3 \<le> pos st4"
    using read_uint_le [of f 4 st1 timestamp st2] read_uint_le [of f 4 st2 len st3]
      record_body_le [of f id_size tag len "st3\<lparr>record_count := record_count st3 + 1\<rparr>" st4]
    by (auto simp: f_read_def split: if_splits)
  then show "((f, id_size, st4), (f, id_size, st)) \<in>
               measure (\<lambda>(f, id_size, st). length f - pos st)"
    by simp
qed

declare records_loop.simps [simp del]

subsection \<open>The header\<close>

text \<open>
  Lines 71 to 76: \<^verbatim>\<open>while True\<close>, left only when the byte read is the NUL byte. At the
  end of the file \<^verbatim>\<open>f.read(1)\<close> returns the empty block, which is not the NUL byte.
\<close>

partial_function (option) read_header ::
    "byte list \<Rightarrow> byte list \<Rightarrow> hstate \<Rightarrow> (error + (byte list \<times> hstate)) option" where
  "read_header f header st =
     (case f_read f 1 st of
        Inl e \<Rightarrow> Some (Inl e)
      | Inr (b, st1) \<Rightarrow>
          (if b = [0] then Some (Inr (header, st1))
           else read_header f (header @ b) st1))"

declare read_header.simps [code]

subsection \<open>The report\<close>

text \<open>\<^verbatim>\<open>Counter(iterable)\<close>, and \<^verbatim>\<open>most_common()\<close>: by falling count, ties in
  the order of first occurrence, as Python's stable \<^verbatim>\<open>sorted\<close> gives them.\<close>

definition counter_of :: "'k list \<Rightarrow> ('k \<times> nat) list" where
  "counter_of xs = foldl counter_incr [] xs"

definition by_count_desc :: "('k \<times> nat) list \<Rightarrow> ('k \<times> nat) list" where
  "by_count_desc items = sort_key (\<lambda>x. - int (snd x)) items"

definition suspect_keywords :: "string list" where
  "suspect_keywords =
     [''MqttConnectionManager'', ''LocationMqttService'', ''MqttForegroundService'',
      ''SmartLocationSyncManager'', ''LocationReportService'', ''DeviceRepository'',
      ''ContactRepository'', ''AuthRepository'', ''CommunicationManager'',
      ''SmartLocator'', ''TencentLocationService'', ''TencentLocationManager'',
      ''GeofenceManager'', ''LocationStateMachine'', ''SoundPlaybackService'',
      ''LostModeService'', ''MainViewModel'', ''ContactViewModel'']"

text \<open>Line 359, the mark "should be a singleton but there are several".\<close>

definition singleton_flag :: "string \<Rightarrow> nat \<Rightarrow> bool" where
  "singleton_flag name count =
     (count > 1 \<and> list_ex (\<lambda>s. str_in s name)
        [''Manager'', ''Service'', ''Repository'', ''Singleton'', ''ViewModel''])"

text \<open>Lines 355 to 360: the rows printed for one keyword.\<close>

definition suspect_rows_of :: "(string \<times> nat) list \<Rightarrow> string \<Rightarrow> (string \<times> nat \<times> bool) list" where
  "suspect_rows_of counts keyword =
     (let matches = filter (\<lambda>(k, v). str_in keyword k) counts
      in map (\<lambda>(name, count). (name, count, singleton_flag name count)) (by_count_desc matches))"

text \<open>
  What lines 280 to 370 print, section by section. A row keeps the full class name; the
  third component of a row is whether the leak mark is printed on it.
\<close>

record report =
  total_records :: nat
  heap_segments :: nat
  string_total :: nat
  class_total :: nat
  gc_root_total :: nat
  findmy_rows :: "(string \<times> nat) list"
  activity_rows :: "(string \<times> nat \<times> bool) list"
  service_rows :: "(string \<times> nat \<times> bool) list"
  scope_rows :: "(string \<times> nat) list"
  view_rows :: "(string \<times> nat) list"
  suspect_rows :: "(string \<times> nat \<times> bool) list"
  root_rows :: "(string \<times> nat) list"

definition report_of :: "hstate \<Rightarrow> report" where
  "report_of st =
     \<lparr>total_records = record_count st,
      heap_segments = heap_records st,
      string_total = length (strings st),
      class_total = length (class_id_to_name st),
      gc_root_total = length (gc_roots st),
      findmy_rows =
        take 50 (by_count_desc
          (filter (\<lambda>(k, v). str_in ''me/ikate/findmy'' k) (instance_counts st))),
      activity_rows =
        map (\<lambda>(name, count). (name, count, count > 1))
          (by_count_desc (counter_of (map snd (activity_instances st)))),
      service_rows =
        map (\<lambda>(name, count). (name, count, count > 1))
          (by_count_desc (counter_of (map snd (service_instances st)))),
      scope_rows = take 20 (by_count_desc (counter_of (map snd (scope_instances st)))),
      view_rows = take 20 (by_count_desc (counter_of (map snd (view_instances st)))),
      suspect_rows = concat (map (suspect_rows_of (instance_counts st)) suspect_keywords),
      root_rows = by_count_desc (counter_of (map fst (gc_roots st)))\<rparr>"

subsection \<open>The whole analysis\<close>

text \<open>
  \<open>None\<close>: the call never returns. \<open>Some (Inl e)\<close>: it raises \<open>e\<close>. \<open>Some (Inr (st, r))\<close>:
  it returns, with the tables \<open>st\<close> at the end of the file and the report \<open>r\<close> printed.
\<close>

definition analyze_hprof :: "byte list \<Rightarrow> (error + (hstate \<times> report)) option" where
  "analyze_hprof f =
     (case read_header f [] init_state of
        None \<Rightarrow> None
      | Some (Inl e) \<Rightarrow> Some (Inl e)
      | Some (Inr (header, st)) \<Rightarrow>
          Some (bindE (read_uint f 4 st) (\<lambda>id_size st.
                bindE (read_uint f 8 st) (\<lambda>timestamp st.
                case records_loop f id_size st of
                  Inl e \<Rightarrow> Inl e
                | Inr st \<Rightarrow> Inr (st, report_of st)))))"

subsection \<open>Two runs\<close>

text \<open>
  Lines 376 to 381: the script analyses two files, one after the other; \<open>f1\<close> and \<open>f2\<close>
  are their contents. The second call is reached when the first has returned. Every call
  starts from the assignments of lines 52 to 67, so that nothing of a run is left for
  the next one.
\<close>

definition main ::
    "byte list \<Rightarrow> byte list \<Rightarrow> (error + ((hstate \<times> report) \<times> (hstate \<times> report))) option" where
  "main f1 f2 =
     (case analyze_hprof f1 of
        None \<Rightarrow> None
      | Some (Inl e) \<Rightarrow> Some (Inl e)
      | Some (Inr r1) \<Rightarrow>
          (case analyze_hprof f2 of
             None \<Rightarrow> None
           | Some (Inl e) \<Rightarrow> Some (Inl e)
           | Some (Inr r2) \<Rightarrow> Some (Inr (r1, r2))))"

section \<open>Files, observations and predicates for the properties\<close>

subsection \<open>Files as the reader takes them apart\<close>

text \<open>
  The bytes that the reads of the source consume, written out field by field, to state
  properties of whole files: \<open>be_bytes n k\<close> is the field that
  \<^verbatim>\<open>struct.unpack\<close> of \<open>n\<close> bytes reads as \<open>k\<close>, and \<open>id_bytes\<close> is the number of bytes
  that \<^verbatim>\<open>read_id\<close> takes.
\<close>

fun be_bytes :: "nat \<Rightarrow> nat \<Rightarrow> byte list" where
  "be_bytes 0 k = []"
| "be_bytes (Suc n) k = be_bytes n (k div 256) @ [of_nat k]"

definition id_bytes :: "nat \<Rightarrow> nat" where
  "id_bytes id_size = (if id_size = 4 then 4 else 8)"

text \<open>Tag, timestamp and length, the nine bytes at the head of every record.\<close>

definition record_header :: "nat \<Rightarrow> nat \<Rightarrow> nat \<Rightarrow> byte list" where
  "record_header tag ts len = be_bytes 1 tag @ be_bytes 4 ts @ be_bytes 4 len"

text \<open>A STRING record with identifier \<open>str_id\<close> and the bytes \<open>txt\<close> as its text.\<close>

definition string_record :: "nat \<Rightarrow> nat \<Rightarrow> nat \<Rightarrow> byte list \<Rightarrow> byte list" where
  "string_record id_size ts str_id txt =
     record_header TAG_STRING ts (id_size + length txt) @ be_bytes (id_bytes id_size) str_id @ txt"

text \<open>A LOAD\_CLASS record.\<close>

definition load_class_record :: "nat \<Rightarrow> nat \<Rightarrow> nat \<Rightarrow> nat \<Rightarrow> nat \<Rightarrow> nat \<Rightarrow> byte list" where
  "load_class_record id_size ts serial class_obj_id stack_serial name_id =
     record_header TAG_LOAD_CLASS ts (8 + 2 * id_bytes id_size) @ be_bytes 4 serial
       @ be_bytes (id_bytes id_size) class_obj_id @ be_bytes 4 stack_serial
       @ be_bytes (id_bytes id_size) name_id"

text \<open>An INSTANCE\_DUMP sub-record with the instance data \<open>data\<close>.\<close>

definition instance_dump :: "nat \<Rightarrow> nat \<Rightarrow> nat \<Rightarrow> nat \<Rightarrow> byte list \<Rightarrow> byte list" where
  "instance_dump id_size obj_id stack_serial class_id data =
     be_bytes 1 SUB_INSTANCE_DUMP @ be_bytes (id_bytes id_size) obj_id @ be_bytes 4 stack_serial
       @ be_bytes (id_bytes id_size) class_id @ be_bytes 4 (length data) @ data"

text \<open>The header: the magic text, its NUL byte, the id size and the timestamp.\<close>

definition hprof_header :: "byte list \<Rightarrow> nat \<Rightarrow> nat \<Rightarrow> byte list" where
  "hprof_header magic id_size timestamp = magic @ [0] @ be_bytes 4 id_size @ be_bytes 8 timestamp"

text \<open>The bytes of \<open>f\<close> from the cursor on are \<open>suf\<close>.\<close>

definition at :: "byte list \<Rightarrow> hstate \<Rightarrow> byte list \<Rightarrow> bool" where
  "at f st suf \<longleftrightarrow> drop (pos st) f = suf"

subsection \<open>Whole files\<close>

text \<open>The bytes of an ASCII text, and a heap dump record around its sub-records.\<close>

definition encode :: "string \<Rightarrow> byte list" where
  "encode s = map (\<lambda>c. of_nat (of_char c)) s"

definition heap_dump_record :: "nat \<Rightarrow> nat \<Rightarrow> byte list \<Rightarrow> byte list" where
  "heap_dump_record tag ts body = record_header tag ts (length body) @ body"

text \<open>
  A whole file: the header, one STRING record with the text \<open>name\<close>, one LOAD\_CLASS
  record naming the class \<open>class_id\<close> by that string, and one heap dump with two
  INSTANCE\_DUMP sub-records of that class. All timestamps are \<open>ts\<close>, the stack serials 0.
\<close>

definition two_instances_file ::
    "byte list \<Rightarrow> nat \<Rightarrow> nat \<Rightarrow> nat \<Rightarrow> string \<Rightarrow> nat \<Rightarrow> nat \<Rightarrow> nat \<Rightarrow> byte list \<Rightarrow> nat \<Rightarrow> byte list
      \<Rightarrow> byte list" where
  "two_instances_file magic id_size ts str_id name serial class_id obj1 data1 obj2 data2 =
     hprof_header magic id_size ts
       @ string_record id_size ts str_id (encode name)
       @ load_class_record id_size ts serial class_id 0 str_id
       @ heap_dump_record TAG_HEAP_DUMP ts
           (instance_dump id_size obj1 0 class_id data1 @ instance_dump id_size obj2 0 class_id data2)"

text \<open>
  A whole file with one STRING record, one LOAD\_CLASS record naming the class by that
  string, and a heap dump with one INSTANCE\_DUMP of the class; the STRING record comes
  first when \<open>string_first\<close> holds, the LOAD\_CLASS record otherwise.
\<close>

definition resolution_file ::
    "bool \<Rightarrow> byte list \<Rightarrow> nat \<Rightarrow> nat \<Rightarrow> nat \<Rightarrow> string \<Rightarrow> nat \<Rightarrow> nat \<Rightarrow> nat \<Rightarrow> byte list \<Rightarrow> byte list" where
  "resolution_file string_first magic id_size ts str_id name serial class_id obj_id data =
     hprof_header magic id_size ts
       @ (if string_first
          then string_record id_size ts str_id (encode name)
                 @ load_class_record id_size ts serial class_id 0 str_id
          else load_class_record id_size ts serial class_id 0 str_id
                 @ string_record id_size ts str_id (encode name))
       @ heap_dump_record TAG_HEAP_DUMP ts (instance_dump id_size obj_id 0 class_id data)"

text \<open>
  A heap dump of declared length 8 holding a STICKY\_CLASS root, the sub-tag 0x99 and two
  more bytes, followed by a STRING record: the string is in the table at the end.
\<close>

definition segment_file :: "byte list" where
  "segment_file =
     [0x0C, 0, 0, 0, 0, 0, 0, 0, 8, 0x05, 0, 0, 0, 0x07, 0x99, 0x01, 0x02,
      0x01, 0, 0, 0, 0, 0, 0, 0, 7, 0, 0, 0, 1, 0x61, 0x62, 0x63]"

subsection \<open>What a run reports\<close>

text \<open>
  A class is reported as leak-suspect when one of the rows printed for it carries a leak
  mark: in the Activity section or the Service section (lines 305 and 317), or in the
  section of the suspect singletons (line 359).
\<close>

definition leak_marked :: "(string \<times> nat \<times> bool) list \<Rightarrow> string \<Rightarrow> bool" where
  "leak_marked rows name = list_ex (\<lambda>row. fst row = name \<and> snd (snd row)) rows"

definition leak_suspect :: "report \<Rightarrow> string \<Rightarrow> bool" where
  "leak_suspect r name \<longleftrightarrow>
     leak_marked (activity_rows r) name \<or> leak_marked (service_rows r) name
       \<or> leak_marked (suspect_rows r) name"

text \<open>What a run that returned has counted for a class, and whether it reported it.\<close>

definition counted :: "(error + hstate \<times> report) option \<Rightarrow> string \<Rightarrow> nat \<Rightarrow> bool" where
  "counted res name n =
     (case res of Some (Inr (st, r)) \<Rightarrow> dict_get (instance_counts st) name 0 = n | _ \<Rightarrow> False)"

definition reported_leak_suspect :: "(error + hstate \<times> report) option \<Rightarrow> string \<Rightarrow> bool" where
  "reported_leak_suspect res name =
     (case res of Some (Inr (st, r)) \<Rightarrow> leak_suspect r name | _ \<Rightarrow> False)"

text \<open>Whether a run that returned printed a leak mark for a class in a section.\<close>

definition marked_in ::
    "(report \<Rightarrow> (string \<times> nat \<times> bool) list) \<Rightarrow> (error + hstate \<times> report) option \<Rightarrow> string \<Rightarrow> bool" where
  "marked_in section res name =
     (case res of Some (Inr (st, r)) \<Rightarrow> leak_marked (section r) name | _ \<Rightarrow> False)"

subsection \<open>Sub-tags, roots and categories\<close>

text \<open>The state with which one pass of the inner loop ends.\<close>

fun flow_state :: "flow \<Rightarrow> hstate" where
  "flow_state (Next st) = st"
| "flow_state (Break st) = st"

text \<open>The sub-tags that have a branch of their own in lines 128 to 269.\<close>

definition known_sub_tags :: "nat list" where
  "known_sub_tags =
     [SUB_ROOT_JNI_GLOBAL, SUB_ROOT_JNI_LOCAL, SUB_ROOT_JAVA_FRAME, SUB_ROOT_NATIVE_STACK,
      SUB_ROOT_STICKY_CLASS, SUB_ROOT_THREAD_BLOCK, SUB_ROOT_MONITOR_USED, SUB_ROOT_THREAD_OBJ,
      SUB_CLASS_DUMP, SUB_INSTANCE_DUMP, SUB_OBJ_ARRAY_DUMP, SUB_PRIM_ARRAY_DUMP,
      0xFF, 0x89, 0x8B, 0x8D, 0xFE, 0xC3, 0x8A, 0x90]"

text \<open>
  From the state \<open>st\<close>, the loop over the sub-records decodes zero or more sub-records
  without error, each begun before \<open>end_pos\<close>, and then, in the state \<open>su\<close> and still
  before \<open>end_pos\<close>, reads a sub-tag that has no branch.
\<close>

inductive reaches_unknown :: "byte list \<Rightarrow> nat \<Rightarrow> nat \<Rightarrow> hstate \<Rightarrow> hstate \<Rightarrow> bool"
  for f :: "byte list" and id_size :: nat and end_pos :: nat where
  here: "pos st < end_pos \<Longrightarrow> read_uint f 1 st = Inr (sub_tag, st1) \<Longrightarrow>
         sub_tag \<notin> set known_sub_tags \<Longrightarrow> reaches_unknown f id_size end_pos st st"
| later: "pos st < end_pos \<Longrightarrow> read_uint f 1 st = Inr (sub_tag, st1) \<Longrightarrow>
          sub_record f id_size end_pos sub_tag st1 = Inr (Next st2) \<Longrightarrow>
          reaches_unknown f id_size end_pos st2 su \<Longrightarrow> reaches_unknown f id_size end_pos st su"

code_pred reaches_unknown .

text \<open>
  The sub-tags whose branch appends to \<^verbatim>\<open>gc_roots\<close>, with the root type appended
  (lines 128 to 167 and 237 to 240), and the sub-tags that the comments of lines 242 to 269
  call roots but whose branch reads the object id and appends nothing.
\<close>

definition recorded_roots :: "(nat \<times> string) list" where
  "recorded_roots =
     [(SUB_ROOT_JNI_GLOBAL, ''JNI_GLOBAL''), (SUB_ROOT_JNI_LOCAL, ''JNI_LOCAL''),
      (SUB_ROOT_JAVA_FRAME, ''JAVA_FRAME''), (SUB_ROOT_NATIVE_STACK, ''NATIVE_STACK''),
      (SUB_ROOT_STICKY_CLASS, ''STICKY_CLASS''), (SUB_ROOT_THREAD_BLOCK, ''THREAD_BLOCK''),
      (SUB_ROOT_MONITOR_USED, ''MONITOR_USED''), (SUB_ROOT_THREAD_OBJ, ''THREAD_OBJ''),
      (0xFF, ''UNKNOWN'')]"

definition unrecorded_roots :: "nat list" where
  "unrecorded_roots = [0x89, 0x8B, 0x8D, 0xC3, 0x8A, 0x90]"

text \<open>
  Every entry of a category list passes the rule of its list and none of the rules before
  it in the chain of lines 213 to 220.
\<close>

definition first_match_only :: "hstate \<Rightarrow> bool" where
  "first_match_only st \<longleftrightarrow>
     list_all (\<lambda>x. activity_rule (snd x)) (activity_instances st)
     \<and> list_all (\<lambda>x. \<not> activity_rule (snd x) \<and> service_rule (snd x)) (service_instances st)
     \<and> list_all (\<lambda>x. \<not> activity_rule (snd x) \<and> \<not> service_rule (snd x) \<and> scope_rule (snd x))
         (scope_instances st)
     \<and> list_all (\<lambda>x. \<not> activity_rule (snd x) \<and> \<not> service_rule (snd x) \<and> \<not> scope_rule (snd x)
           \<and> view_rule (snd x)) (view_instances st)"

section \<open>Properties\<close>

subsection \<open>The header scan\<close>

lemma f_read_1:
  "f_read f 1 st = Inr (take 1 (drop (pos st) f), st\<lparr>pos := pos st + length (take 1 (drop (pos st) f))\<rparr>)"
  by (simp add: f_read_def maxsize_def Let_def)

lemma read_header_Some_nul:
  assumes "read_header f header st = Some y"
  shows "0 \<in> set (drop (pos st) f)"
proof (rule read_header.raw_induct
    [where P = "\<lambda>f header st y. 0 \<in> set (drop (pos st) f)", OF _ assms])
  fix read_header :: "byte list \<Rightarrow> byte list \<Rightarrow> hstate \<Rightarrow> (error + (byte list \<times> hstate)) option"
    and f header st y
  assume IH: "\<And>f header st y. read_header f header st = Some y \<Longrightarrow> 0 \<in> set (drop (pos st) f)"
    and prems: "(case f_read f 1 st of Inl e \<Rightarrow> Some (Inl e)
      | Inr (b, st1) \<Rightarrow>
          if b = [0] then Some (Inr (header, st1))
          else read_header f (header @ b) st1) = Some y"
  show "0 \<in> set (drop (pos st) f)"
  proof (cases "take 1 (drop (pos st) f) = [0]")
    case True
    then have "0 \<in> set (take 1 (drop (pos st) f))" by simp
    then show ?thesis by (rule in_set_takeD)
  next
    case False
    with prems have
      "read_header f (header @ take 1 (drop (pos st) f))
         (st\<lparr>pos := pos st + length (take 1 (drop (pos st) f))\<rparr>) = Some y"
      by (simp add: f_read_1)
    from IH [OF this]
    have "0 \<in> set (drop (pos st + length (take 1 (drop (pos st) f))) f)" by simp
    then have "0 \<in> set (drop (length (take 1 (drop (pos st) f))) (drop (pos st) f))"
      by (simp add: add.commute)
    then show ?thesis by (rule in_set_dropD)
  qed
qed

lemma read_header_found:
  assumes "drop (pos st) f = magic @ 0 # rest" and "0 \<notin> set magic"
  shows "read_header f header st =
           Some (Inr (header @ magic, st\<lparr>pos := pos st + length magic + 1\<rparr>))"
  using assms
proof (induction magic arbitrary: st header)
  case Nil
  then show ?case by (subst read_header.simps) (simp add: f_read_1)
next
  case (Cons b magic)
  let ?st1 = "st\<lparr>pos := pos st + 1\<rparr>"
  from Cons.prems have b: "b \<noteq> 0" and m: "0 \<notin> set magic" by auto
  from Cons.prems have "drop (pos ?st1) f = magic @ 0 # rest"
    by (simp add: drop_Suc tl_drop [symmetric])
  from Cons.IH [OF this m, of "header @ [b]"]
  have "read_header f (header @ [b]) ?st1 =
          Some (Inr (header @ b # magic, st\<lparr>pos := pos st + length (b # magic) + 1\<rparr>))"
    by simp
  with Cons.prems b show ?case
    by (subst read_header.simps) (simp add: f_read_1)
qed

lemma read_header_None_iff:
  "read_header f header st = None \<longleftrightarrow> 0 \<notin> set (drop (pos st) f)"
proof
  assume "read_header f header st = None"
  show "0 \<notin> set (drop (pos st) f)"
  proof
    assume "0 \<in> set (drop (pos st) f)"
    then obtain magic rest where "drop (pos st) f = magic @ 0 # rest" and "0 \<notin> set magic"
      by (auto dest: split_list_first)
    then have "read_header f header st \<noteq> None"
      by (simp add: read_header_found)
    with \<open>read_header f header st = None\<close> show False by simp
  qed
next
  assume "0 \<notin> set (drop (pos st) f)"
  then show "read_header f header st = None"
    using read_header_Some_nul [of f header st] by (cases "read_header f header st") auto
qed

text \<open>
  Claim C8 says that the analysis terminates on every finite input. The header scan
  (lines 72 to 76) has no test for the end of the file, unlike the record loop (line 97):
  the analysis returns or raises exactly when the file holds a NUL byte, and runs forever
  on every other file, the empty file among them.
\<close>

theorem analyze_hprof_diverges_iff: "analyze_hprof f = None \<longleftrightarrow> 0 \<notin> set f"
proof -
  have "analyze_hprof f = None \<longleftrightarrow> read_header f [] init_state = None"
    by (simp add: analyze_hprof_def split: option.splits sum.splits)
  then show ?thesis
    by (simp add: read_header_None_iff init_state_def)
qed

theorem analyze_hprof_diverges_witness: "analyze_hprof [] = None \<and> analyze_hprof [0x4A, 0x41] = None"
  using analyze_hprof_diverges_iff [of "[]"] analyze_hprof_diverges_iff [of "[0x4A, 0x41]"]
  by simp

subsection \<open>Reading a file field by field\<close>

lemma length_be_bytes [simp]: "length (be_bytes n k) = n"
  by (induction n arbitrary: k) auto

lemma be_nat_snoc: "be_nat (b @ [x]) = be_nat b * 256 + unat x"
  by (simp add: be_nat_def)

lemma be_nat_be_bytes: "be_nat (be_bytes n k) = k mod 256 ^ n"
proof (induction n arbitrary: k)
  case 0
  then show ?case by (simp add: be_nat_def)
next
  case (Suc n)
  have "be_nat (be_bytes (Suc n) k) = (k div 256 mod 256 ^ n) * 256 + k mod 256"
    by (simp add: be_nat_snoc Suc.IH unat_of_nat)
  also have "\<dots> = k mod 256 ^ Suc n"
    by (simp add: mod_mult2_eq mult.commute)
  finally show ?case .
qed

lemma be_nat_be_bytes_id [simp]: "k < 256 ^ n \<Longrightarrow> be_nat (be_bytes n k) = k"
  by (simp add: be_nat_be_bytes)

declare be_bytes.simps [simp del]

lemma drop_after:
  assumes "drop p f = b @ rest"
  shows "drop (p + length b) f = rest"
proof -
  have "drop (length b) (drop p f) = rest" using assms by simp
  then show ?thesis by (simp add: add.commute)
qed

lemma f_read_at:
  assumes "drop (pos st) f = b @ rest" and "n = int (length b)" and "length b < 2 ^ 63"
  shows "f_read f n st = Inr (b, st\<lparr>pos := pos st + length b\<rparr>)"
proof -
  from assms(3) have "int (length b) < 2 ^ 63" by (metis of_nat_less_iff of_nat_numeral of_nat_power)
  with assms(1,2) show ?thesis by (simp add: f_read_def maxsize_def Let_def)
qed

lemma le8: "(1::nat) \<le> 8" "(4::nat) \<le> 8" "(8::nat) \<le> 8"
  by simp_all

lemma id_bytes_le8: "id_bytes id_size \<le> 8"
  by (simp add: id_bytes_def)

lemma read_uint_at:
  assumes "drop (pos st) f = be_bytes n k @ rest" and "k < 256 ^ n" and "n \<le> 8"
  shows "read_uint f n st = Inr (k, st\<lparr>pos := pos st + n\<rparr>)"
proof -
  from assms(3) have "length (be_bytes n k) < 2 ^ 63" by simp
  from f_read_at [OF assms(1) _ this, of "int n"] assms(2) show ?thesis
    by (simp add: read_uint_def bindE_def unpack_def)
qed

lemma read_id_at:
  assumes "drop (pos st) f = be_bytes (id_bytes id_size) k @ rest" and "k < 256 ^ id_bytes id_size"
  shows "read_id f id_size st = Inr (k, st\<lparr>pos := pos st + id_bytes id_size\<rparr>)"
  using assms read_uint_at [of st f "id_bytes id_size" k rest, OF _ _ id_bytes_le8]
  by (auto simp: read_id_def id_bytes_def)

lemma at_f_read:
  assumes "at f st (b @ rest)" and "n = int (length b)" and "st' = st\<lparr>pos := pos st + length b\<rparr>"
    and "length b < 2 ^ 63"
  shows "f_read f n st = Inr (b, st')" and "at f st' rest"
  using assms by (simp_all add: at_def f_read_at drop_after)

lemma at_read_uint:
  assumes "at f st (be_bytes n k @ rest)" and "k < 256 ^ n" and "st' = st\<lparr>pos := pos st + n\<rparr>"
    and "n \<le> 8"
  shows "read_uint f n st = Inr (k, st')" and "at f st' rest"
  using assms drop_after [of "pos st" f "be_bytes n k" rest]
  by (simp_all add: at_def read_uint_at)

lemma at_read_id:
  assumes "at f st (be_bytes (id_bytes id_size) k @ rest)" and "k < 256 ^ id_bytes id_size"
    and "st' = st\<lparr>pos := pos st + id_bytes id_size\<rparr>"
  shows "read_id f id_size st = Inr (k, st')" and "at f st' rest"
  using assms drop_after [of "pos st" f "be_bytes (id_bytes id_size) k" rest]
  by (simp_all add: at_def read_id_at)

lemma at_pos_cong: "pos st' = pos st \<Longrightarrow> at f st' suf = at f st suf"
  by (simp add: at_def)

lemma at_upd [simp]:
  "at f (st\<lparr>record_count := rc\<rparr>) suf = at f st suf"
  "at f (st\<lparr>heap_records := hr\<rparr>) suf = at f st suf"
  "at f (st\<lparr>strings := ss\<rparr>) suf = at f st suf"
  "at f (load_class serial class_obj_id name_id st) suf = at f st suf"
  "at f (count_instance obj_id class_id st) suf = at f st suf"
  "at f (add_root root_type obj_id st) suf = at f st suf"
  by (simp_all add: at_def)

lemma be_bytes_1_ne [simp]: "be_bytes 1 k \<noteq> []"
  using length_be_bytes [of 1 k] by (metis length_0_conv zero_neq_one)

lemma unpack_be_bytes [simp]: "k < 256 ^ n \<Longrightarrow> unpack n (be_bytes n k) = Inr k"
  by (simp add: unpack_def)

lemma records_loop_header:
  assumes a0: "at f st (record_header tag ts len @ rest)"
    and tag: "tag < 256" and ts: "ts < 2 ^ 32" and len: "len < 2 ^ 32"
    and st': "st' = st\<lparr>pos := pos st + 9, record_count := record_count st + 1\<rparr>"
  shows "records_loop f id_size st =
           (case record_body f id_size tag len st' of
              Inl e \<Rightarrow> Inl e
            | Inr st4 \<Rightarrow> records_loop f id_size st4)"
    and "at f st' rest"
proof -
  define st1 where "st1 = st\<lparr>pos := pos st + length (be_bytes 1 tag)\<rparr>"
  define st2 where "st2 = st1\<lparr>pos := pos st1 + 4\<rparr>"
  define st3 where "st3 = st2\<lparr>pos := pos st2 + 4\<rparr>"
  from a0 have b0: "at f st (be_bytes 1 tag @ be_bytes 4 ts @ be_bytes 4 len @ rest)"
    by (simp add: record_header_def)
  from tag have u: "unpack 1 (be_bytes 1 tag) = Inr tag" by simp
  from ts have ts': "ts < 256 ^ 4" by simp
  from len have len': "len < 256 ^ 4" by simp
  have i1: "(1::int) = int (length (be_bytes 1 tag))" by simp
  have l1: "length (be_bytes 1 tag) < 2 ^ 63" by simp
  note r0 = at_f_read [OF b0 i1 st1_def l1]
  note r1 = at_read_uint [OF r0(2) ts' st2_def le8(2)]
  note r2 = at_read_uint [OF r1(2) len' st3_def le8(2)]
  have e: "st3\<lparr>record_count := record_count st3 + 1\<rparr> = st'"
    by (rule hstate.equality) (simp_all add: st1_def st2_def st3_def st')
  show "records_loop f id_size st =
           (case record_body f id_size tag len st' of
              Inl e \<Rightarrow> Inl e
            | Inr st4 \<Rightarrow> records_loop f id_size st4)"
    by (subst records_loop.simps)
      (simp only: r0(1) u r1(1) r2(1) e sum.case prod.case be_bytes_1_ne if_False)
  from r2(2) have "at f (st3\<lparr>record_count := record_count st3 + 1\<rparr>) rest"
    by (simp only: at_upd)
  then show "at f st' rest" by (simp only: e)
qed

lemma record_body_string:
  assumes a0: "at f st (be_bytes (id_bytes id_size) str_id @ txt @ rest)"
    and sid: "str_id < 256 ^ id_bytes id_size" and tlen: "length txt < 2 ^ 63"
    and st': "st' = st\<lparr>pos := pos st + (id_bytes id_size + length txt),
                 strings := dict_set (strings st) str_id (decode txt)\<rparr>"
  shows "record_body f id_size TAG_STRING (id_size + length txt) st = Inr st'"
    and "at f st' rest"
proof -
  define st1 where "st1 = st\<lparr>pos := pos st + id_bytes id_size\<rparr>"
  define st2 where "st2 = st1\<lparr>pos := pos st1 + length txt\<rparr>"
  note r0 = at_read_id [OF a0 sid st1_def]
  note r1 = at_f_read [OF r0(2) refl st2_def tlen]
  have e: "st2\<lparr>strings := dict_set (strings st2) str_id (decode txt)\<rparr> = st'"
    by (rule hstate.equality) (simp_all add: st1_def st2_def st')
  show "record_body f id_size TAG_STRING (id_size + length txt) st = Inr st'"
    by (simp add: record_body_def bindE_def r0(1) r1(1) e)
  from r1(2) have "at f (st2\<lparr>strings := dict_set (strings st2) str_id (decode txt)\<rparr>) rest"
    by (simp only: at_upd)
  then show "at f st' rest" by (simp only: e)
qed

lemma records_loop_string:
  assumes a0: "at f st (string_record id_size ts str_id txt @ rest)"
    and ts: "ts < 2 ^ 32" and len: "id_size + length txt < 2 ^ 32"
    and sid: "str_id < 256 ^ id_bytes id_size"
    and st': "st' = st\<lparr>pos := pos st + (9 + id_bytes id_size + length txt),
                 strings := dict_set (strings st) str_id (decode txt),
                 record_count := record_count st + 1\<rparr>"
  shows "records_loop f id_size st = records_loop f id_size st'"
    and "at f st' rest"
proof -
  define st1 where "st1 = st\<lparr>pos := pos st + 9, record_count := record_count st + 1\<rparr>"
  from a0 have b0: "at f st (record_header TAG_STRING ts (id_size + length txt)
      @ be_bytes (id_bytes id_size) str_id @ txt @ rest)"
    by (simp add: string_record_def)
  have t: "TAG_STRING < 256" by simp
  note h = records_loop_header [OF b0 t ts len st1_def]
  have e: "st' = st1\<lparr>pos := pos st1 + (id_bytes id_size + length txt),
                 strings := dict_set (strings st1) str_id (decode txt)\<rparr>"
    by (rule hstate.equality) (simp_all add: st1_def st')
  from len have tlen: "length txt < 2 ^ 63" by simp
  note b = record_body_string [OF h(2) sid tlen e]
  show "records_loop f id_size st = records_loop f id_size st'"
    by (simp only: h(1) b(1) sum.case)
  show "at f st' rest" by (rule b(2))
qed

lemma record_body_load_class:
  assumes a0: "at f st (be_bytes 4 serial @ be_bytes (id_bytes id_size) class_obj_id
      @ be_bytes 4 stack_serial @ be_bytes (id_bytes id_size) name_id @ rest)"
    and b: "serial < 2 ^ 32" "class_obj_id < 256 ^ id_bytes id_size" "stack_serial < 2 ^ 32"
      "name_id < 256 ^ id_bytes id_size"
    and st': "st' = load_class serial class_obj_id name_id
                (st\<lparr>pos := pos st + (8 + 2 * id_bytes id_size)\<rparr>)"
  shows "record_body f id_size TAG_LOAD_CLASS len st = Inr st'"
    and "at f st' rest"
proof -
  define st1 where "st1 = st\<lparr>pos := pos st + 4\<rparr>"
  define st2 where "st2 = st1\<lparr>pos := pos st1 + id_bytes id_size\<rparr>"
  define st3 where "st3 = st2\<lparr>pos := pos st2 + 4\<rparr>"
  define st4 where "st4 = st3\<lparr>pos := pos st3 + id_bytes id_size\<rparr>"
  from b have b': "serial < 256 ^ 4" "stack_serial < 256 ^ 4" by simp_all
  note r0 = at_read_uint [OF a0 b'(1) st1_def le8(2)]
  note r1 = at_read_id [OF r0(2) b(2) st2_def]
  note r2 = at_read_uint [OF r1(2) b'(2) st3_def le8(2)]
  note r3 = at_read_id [OF r2(2) b(4) st4_def]
  have "st4 = st\<lparr>pos := pos st + (8 + 2 * id_bytes id_size)\<rparr>"
    by (rule hstate.equality) (simp_all add: st1_def st2_def st3_def st4_def)
  then have e: "load_class serial class_obj_id name_id st4 = st'"
    by (simp only: st')
  show "record_body f id_size TAG_LOAD_CLASS len st = Inr st'"
    by (simp add: record_body_def bindE_def r0(1) r1(1) r2(1) r3(1) e)
  from r3(2) have "at f (load_class serial class_obj_id name_id st4) rest"
    by (simp only: at_upd)
  then show "at f st' rest" by (simp only: e)
qed

lemma records_loop_load_class:
  assumes a0: "at f st (load_class_record id_size ts serial class_obj_id stack_serial name_id @ rest)"
    and ts: "ts < 2 ^ 32"
    and b: "serial < 2 ^ 32" "class_obj_id < 256 ^ id_bytes id_size" "stack_serial < 2 ^ 32"
      "name_id < 256 ^ id_bytes id_size"
    and st': "st' = load_class serial class_obj_id name_id
                (st\<lparr>pos := pos st + (17 + 2 * id_bytes id_size),
                    record_count := record_count st + 1\<rparr>)"
  shows "records_loop f id_size st = records_loop f id_size st'"
    and "at f st' rest"
proof -
  define st1 where "st1 = st\<lparr>pos := pos st + 9, record_count := record_count st + 1\<rparr>"
  from a0 have b0: "at f st (record_header TAG_LOAD_CLASS ts (8 + 2 * id_bytes id_size)
      @ be_bytes 4 serial @ be_bytes (id_bytes id_size) class_obj_id
      @ be_bytes 4 stack_serial @ be_bytes (id_bytes id_size) name_id @ rest)"
    by (simp add: load_class_record_def)
  have t: "TAG_LOAD_CLASS < 256" by simp
  have l: "8 + 2 * id_bytes id_size < 2 ^ 32" by (simp add: id_bytes_def)
  note h = records_loop_header [OF b0 t ts l st1_def]
  have "st1\<lparr>pos := pos st1 + (8 + 2 * id_bytes id_size)\<rparr> =
      st\<lparr>pos := pos st + (17 + 2 * id_bytes id_size), record_count := record_count st + 1\<rparr>"
    by (rule hstate.equality) (simp_all add: st1_def)
  then have e: "st' = load_class serial class_obj_id name_id
                (st1\<lparr>pos := pos st1 + (8 + 2 * id_bytes id_size)\<rparr>)"
    by (simp only: st')
  note r = record_body_load_class [OF h(2) b e]
  show "records_loop f id_size st = records_loop f id_size st'"
    by (simp only: h(1) r(1) sum.case)
  show "at f st' rest" by (rule r(2))
qed

lemma records_loop_eof:
  assumes "at f st []"
  shows "records_loop f id_size st = Inr st"
  using assms by (subst records_loop.simps) (simp add: at_def f_read_def maxsize_def)

lemma heap_loop_done: "\<not> pos st < end_pos \<Longrightarrow> heap_loop f id_size end_pos st = Inr st"
  by (subst heap_loop.simps) simp

lemma heap_loop_sub_tag:
  assumes a0: "at f st (be_bytes 1 sub_tag @ rest)" and lt: "pos st < end_pos"
    and tag: "sub_tag < 256" and st': "st' = st\<lparr>pos := pos st + 1\<rparr>"
  shows "heap_loop f id_size end_pos st =
           (case sub_record f id_size end_pos sub_tag st' of
              Inl e \<Rightarrow> Inl e
            | Inr (Break st2) \<Rightarrow> Inr st2
            | Inr (Next st2) \<Rightarrow> heap_loop f id_size end_pos st2)"
    and "at f st' rest"
proof -
  from tag have t: "sub_tag < 256 ^ 1" by simp
  note r = at_read_uint [OF a0 t st' le8(1)]
  show "heap_loop f id_size end_pos st =
           (case sub_record f id_size end_pos sub_tag st' of
              Inl e \<Rightarrow> Inl e
            | Inr (Break st2) \<Rightarrow> Inr st2
            | Inr (Next st2) \<Rightarrow> heap_loop f id_size end_pos st2)"
    by (subst heap_loop.simps) (simp only: lt if_True r(1) sum.case prod.case)
  show "at f st' rest" by (rule r(2))
qed

lemma sub_record_instance_dump:
  assumes a0: "at f st (be_bytes (id_bytes id_size) obj_id @ be_bytes 4 stack_serial
       @ be_bytes (id_bytes id_size) class_id @ be_bytes 4 (length data) @ data @ rest)"
    and b: "obj_id < 256 ^ id_bytes id_size" "stack_serial < 2 ^ 32"
      "class_id < 256 ^ id_bytes id_size" "length data < 2 ^ 32"
    and st': "st' = count_instance obj_id class_id
                (st\<lparr>pos := pos st + (8 + 2 * id_bytes id_size + length data)\<rparr>)"
  shows "sub_record f id_size end_pos SUB_INSTANCE_DUMP st = Inr (Next st')"
    and "at f st' rest"
proof -
  define st1 where "st1 = st\<lparr>pos := pos st + id_bytes id_size\<rparr>"
  define st2 where "st2 = st1\<lparr>pos := pos st1 + 4\<rparr>"
  define st3 where "st3 = st2\<lparr>pos := pos st2 + id_bytes id_size\<rparr>"
  define st4 where "st4 = st3\<lparr>pos := pos st3 + 4\<rparr>"
  define st5 where "st5 = st4\<lparr>pos := pos st4 + length data\<rparr>"
  from b have b': "stack_serial < 256 ^ 4" "length data < 256 ^ 4" by simp_all
  note r0 = at_read_id [OF a0 b(1) st1_def]
  note r1 = at_read_uint [OF r0(2) b'(1) st2_def le8(2)]
  note r2 = at_read_id [OF r1(2) b(3) st3_def]
  note r3 = at_read_uint [OF r2(2) b'(2) st4_def le8(2)]
  from b(4) have l4: "length data < 2 ^ 63" by simp
  note r4 = at_f_read [OF r3(2) refl st5_def l4]
  have "st5 = st\<lparr>pos := pos st + (8 + 2 * id_bytes id_size + length data)\<rparr>"
    by (rule hstate.equality) (simp_all add: st1_def st2_def st3_def st4_def st5_def)
  then have e: "count_instance obj_id class_id st5 = st'"
    by (simp only: st')
  show "sub_record f id_size end_pos SUB_INSTANCE_DUMP st = Inr (Next st')"
    by (simp add: sub_record_def bindE_def r0(1) r1(1) r2(1) r3(1) r4(1) e)
  from r4(2) have "at f (count_instance obj_id class_id st5) rest"
    by (simp only: at_upd)
  then show "at f st' rest" by (simp only: e)
qed

lemma heap_loop_instance_dump:
  assumes a0: "at f st (instance_dump id_size obj_id stack_serial class_id data @ rest)"
    and lt: "pos st < end_pos"
    and b: "obj_id < 256 ^ id_bytes id_size" "stack_serial < 2 ^ 32"
      "class_id < 256 ^ id_bytes id_size" "length data < 2 ^ 32"
    and st': "st' = count_instance obj_id class_id
                (st\<lparr>pos := pos st + (9 + 2 * id_bytes id_size + length data)\<rparr>)"
  shows "heap_loop f id_size end_pos st = heap_loop f id_size end_pos st'"
    and "at f st' rest"
proof -
  define st1 where "st1 = st\<lparr>pos := pos st + 1\<rparr>"
  from a0 have b0: "at f st (be_bytes 1 SUB_INSTANCE_DUMP @ be_bytes (id_bytes id_size) obj_id
       @ be_bytes 4 stack_serial @ be_bytes (id_bytes id_size) class_id
       @ be_bytes 4 (length data) @ data @ rest)"
    by (simp add: instance_dump_def)
  have t: "SUB_INSTANCE_DUMP < 256" by simp
  note h = heap_loop_sub_tag [OF b0 lt t st1_def]
  have "st1\<lparr>pos := pos st1 + (8 + 2 * id_bytes id_size + length data)\<rparr> =
      st\<lparr>pos := pos st + (9 + 2 * id_bytes id_size + length data)\<rparr>"
    by (rule hstate.equality) (simp_all add: st1_def)
  then have e: "st' = count_instance obj_id class_id
                (st1\<lparr>pos := pos st1 + (8 + 2 * id_bytes id_size + length data)\<rparr>)"
    by (simp only: st')
  note r = sub_record_instance_dump [OF h(2) b e]
  show "heap_loop f id_size end_pos st = heap_loop f id_size end_pos st'"
    by (simp only: h(1) r(1) sum.case flow.case)
  show "at f st' rest" by (rule r(2))
qed

lemma records_loop_heap_dump:
  assumes a0: "at f st (record_header tag ts len @ rest)"
    and tag: "tag = TAG_HEAP_DUMP \<or> tag = TAG_HEAP_DUMP_SEGMENT"
    and ts: "ts < 2 ^ 32" and len: "len < 2 ^ 32"
    and st': "st' = st\<lparr>pos := pos st + 9, record_count := record_count st + 1,
                heap_records := heap_records st + 1\<rparr>"
  shows "records_loop f id_size st =
           (case heap_loop f id_size (pos st + 9 + len) st' of
              Inl e \<Rightarrow> Inl e
            | Inr st4 \<Rightarrow> records_loop f id_size st4)"
    and "at f st' rest"
proof -
  define st1 where "st1 = st\<lparr>pos := pos st + 9, record_count := record_count st + 1\<rparr>"
  from tag have t: "tag < 256" by auto
  note h = records_loop_header [OF a0 t ts len st1_def]
  have e: "st1\<lparr>heap_records := heap_records st1 + 1\<rparr> = st'"
    by (rule hstate.equality) (simp_all add: st1_def st')
  have p: "pos st1 = pos st + 9" by (simp add: st1_def)
  from tag have "record_body f id_size tag len st1 =
      heap_loop f id_size (pos st1 + len) (st1\<lparr>heap_records := heap_records st1 + 1\<rparr>)"
    unfolding record_body_def Let_def by auto
  then have "record_body f id_size tag len st1 = heap_loop f id_size (pos st + 9 + len) st'"
    by (simp only: e p)
  with h(1) show "records_loop f id_size st =
           (case heap_loop f id_size (pos st + 9 + len) st' of
              Inl e \<Rightarrow> Inl e
            | Inr st4 \<Rightarrow> records_loop f id_size st4)"
    by (simp only:)
  from h(2) have "at f (st1\<lparr>heap_records := heap_records st1 + 1\<rparr>) rest"
    by (simp only: at_upd)
  then show "at f st' rest" by (simp only: e)
qed

lemma analyze_hprof_header:
  assumes f: "f = hprof_header magic id_size timestamp @ rest"
    and m: "0 \<notin> set magic" and w: "id_size < 2 ^ 32" and t: "timestamp < 2 ^ 64"
    and st': "st' = init_state\<lparr>pos := length magic + 13\<rparr>"
  shows "analyze_hprof f =
           Some (case records_loop f id_size st' of
                   Inl e \<Rightarrow> Inl e
                 | Inr st \<Rightarrow> Inr (st, report_of st))"
    and "at f st' rest"
proof -
  define st1 where "st1 = init_state\<lparr>pos := pos init_state + length magic + 1\<rparr>"
  define st2 where "st2 = st1\<lparr>pos := pos st1 + 4\<rparr>"
  define st3 where "st3 = st2\<lparr>pos := pos st2 + 8\<rparr>"
  from f have d: "drop (pos init_state) f = magic @ 0 # (be_bytes 4 id_size @ be_bytes 8 timestamp @ rest)"
    by (simp add: hprof_header_def init_state_def)
  note h = read_header_found [OF d m, of "[]", folded st1_def]
  from d have "drop (pos init_state + length (magic @ [0])) f = be_bytes 4 id_size @ be_bytes 8 timestamp @ rest"
    by (intro drop_after) simp
  then have a1: "at f st1 (be_bytes 4 id_size @ be_bytes 8 timestamp @ rest)"
    by (simp add: at_def st1_def)
  from w have w': "id_size < 256 ^ 4" by simp
  from t have t': "timestamp < 256 ^ 8" by simp
  note r1 = at_read_uint [OF a1 w' st2_def le8(2)]
  note r2 = at_read_uint [OF r1(2) t' st3_def le8(3)]
  have e: "st3 = st'"
    by (rule hstate.equality) (simp_all add: st1_def st2_def st3_def st' init_state_def)
  show "analyze_hprof f =
           Some (case records_loop f id_size st' of
                   Inl e \<Rightarrow> Inl e
                 | Inr st \<Rightarrow> Inr (st, report_of st))"
    by (simp add: analyze_hprof_def h r1(1) r2(1) bindE_def e)
  from r2(2) show "at f st' rest" by (simp only: e)
qed

subsection \<open>Two instances of one class\<close>

lemma decode_encode [simp]: "decode (encode s) = s"
  by (induction s) (simp_all add: decode_def encode_def unat_of_nat take_bit_eq_mod)

lemma length_encode [simp]: "length (encode s) = length s"
  by (simp add: encode_def)

lemma length_instance_dump [simp]:
  "length (instance_dump id_size obj_id stack_serial class_id data) =
     9 + 2 * id_bytes id_size + length data"
  by (simp add: instance_dump_def)

lemma count_instance_pos_upd:
  "count_instance obj_id class_id (st\<lparr>pos := p\<rparr>) = (count_instance obj_id class_id st)\<lparr>pos := p\<rparr>"
  by (rule hstate.equality)
    (simp_all add: count_instance_def Let_def class_name_of_def check_key_class_def)

lemma two_instances_file_state:
  assumes m: "0 \<notin> set magic" and w: "id_size < 2 ^ 32" and ts: "ts < 2 ^ 32"
    and sid: "str_id < 256 ^ id_bytes id_size" and nl: "id_size + length name < 2 ^ 32"
    and ser: "serial < 2 ^ 32" and cid: "class_id < 256 ^ id_bytes id_size"
    and o1: "obj1 < 256 ^ id_bytes id_size" and o2: "obj2 < 256 ^ id_bytes id_size"
    and dl: "length data1 + length data2 < 2 ^ 31"
  shows "\<exists>st. analyze_hprof
             (two_instances_file magic id_size ts str_id name serial class_id obj1 data1 obj2 data2)
           = Some (Inr (st, report_of st))
         \<and> st = count_instance obj2 class_id (count_instance obj1 class_id
             (init_state\<lparr>strings := [(str_id, name)], class_names := [(serial, str_id)],
                class_id_to_serial := [(class_id, serial)],
                class_id_to_name := [(class_id, name)],
                record_count := 3, heap_records := 1\<rparr>))\<lparr>pos := pos st\<rparr>"
proof -
  let ?f = "two_instances_file magic id_size ts str_id name serial class_id obj1 data1 obj2 data2"
  let ?i1 = "instance_dump id_size obj1 0 class_id data1"
  let ?i2 = "instance_dump id_size obj2 0 class_id data2"
  let ?body = "?i1 @ ?i2"
  let ?idb = "id_bytes id_size"
  have idb: "?idb \<le> 8" by (simp add: id_bytes_def)
  define s0 where "s0 = init_state\<lparr>pos := length magic + 13\<rparr>"
  define s1 where "s1 = s0\<lparr>pos := pos s0 + (9 + ?idb + length (encode name)),
                 strings := dict_set (strings s0) str_id (decode (encode name)),
                 record_count := record_count s0 + 1\<rparr>"
  define s2 where "s2 = load_class serial class_id str_id
                (s1\<lparr>pos := pos s1 + (17 + 2 * ?idb), record_count := record_count s1 + 1\<rparr>)"
  define s3 where "s3 = s2\<lparr>pos := pos s2 + 9, record_count := record_count s2 + 1,
                heap_records := heap_records s2 + 1\<rparr>"
  define s4 where "s4 = count_instance obj1 class_id
                (s3\<lparr>pos := pos s3 + (9 + 2 * ?idb + length data1)\<rparr>)"
  define s5 where "s5 = count_instance obj2 class_id
                (s4\<lparr>pos := pos s4 + (9 + 2 * ?idb + length data2)\<rparr>)"
  define end_pos where "end_pos = pos s2 + 9 + length ?body"
  have f: "?f = hprof_header magic id_size ts
       @ (string_record id_size ts str_id (encode name)
       @ load_class_record id_size ts serial class_id 0 str_id
       @ record_header TAG_HEAP_DUMP ts (length ?body) @ ?i1 @ ?i2 @ [])"
    by (simp add: two_instances_file_def heap_dump_record_def)
  from ts have ts64: "ts < 2 ^ 64" by simp
  from nl have nl': "id_size + length (encode name) < 2 ^ 32" by simp
  from dl idb have bl: "length ?body < 2 ^ 32" by simp
  from dl have d1: "length data1 < 2 ^ 32" and d2: "length data2 < 2 ^ 32" by simp_all
  have z: "(0::nat) < 2 ^ 32" by simp
  note h = analyze_hprof_header [OF f m w ts64 s0_def]
  note r1 = records_loop_string [OF h(2) ts nl' sid s1_def]
  note r2 = records_loop_load_class [OF r1(2) ts ser cid z sid s2_def]
  note r3 = records_loop_heap_dump [OF r2(2) disjI1 [OF refl] ts bl s3_def, folded end_pos_def]
  have p3: "pos s3 < end_pos" by (simp add: s3_def end_pos_def)
  note r4 = heap_loop_instance_dump [OF r3(2) p3 o1 z cid d1 s4_def]
  have p4: "pos s4 < end_pos" by (simp add: s4_def s3_def end_pos_def)
  note r5 = heap_loop_instance_dump [OF r4(2) p4 o2 z cid d2 s5_def]
  have p5: "\<not> pos s5 < end_pos" by (simp add: s5_def s4_def s3_def end_pos_def)
  have "analyze_hprof ?f = Some (Inr (s5, report_of s5))"
    by (simp only: h(1) r1(1) r2(1) r3(1) r4(1) r5(1) heap_loop_done [OF p5]
        records_loop_eof [OF r5(2)] sum.case)
  moreover have "s5 = count_instance obj2 class_id (count_instance obj1 class_id
             (init_state\<lparr>strings := [(str_id, name)], class_names := [(serial, str_id)],
                class_id_to_serial := [(class_id, serial)],
                class_id_to_name := [(class_id, name)],
                record_count := 3, heap_records := 1\<rparr>))\<lparr>pos := pos s5\<rparr>"
  proof -
    define base where "base = init_state\<lparr>strings := [(str_id, name)],
        class_names := [(serial, str_id)], class_id_to_serial := [(class_id, serial)],
        class_id_to_name := [(class_id, name)], record_count := 3, heap_records := 1\<rparr>"
    have "s3 = base\<lparr>pos := pos s3\<rparr>"
      by (rule hstate.equality)
        (simp_all add: s3_def s2_def s1_def s0_def base_def init_state_def load_class_def
          dict_set_def)
    then obtain p3 where "s3 = base\<lparr>pos := p3\<rparr>" ..
    then have "s5 = (count_instance obj2 class_id (count_instance obj1 class_id base))
        \<lparr>pos := p3 + (9 + 2 * ?idb + length data1) + (9 + 2 * ?idb + length data2)\<rparr>"
      by (simp add: s5_def s4_def count_instance_pos_upd)
    then obtain p5 where "s5 = (count_instance obj2 class_id (count_instance obj1 class_id base))
        \<lparr>pos := p5\<rparr>" ..
    then show ?thesis by (simp add: base_def)
  qed
  ultimately show ?thesis by blast
qed

lemma set_by_count_desc [simp]: "set (by_count_desc items) = set items"
  by (simp add: by_count_desc_def)

lemma leak_marked_suspect_rows:
  "leak_marked (concat (map (suspect_rows_of counts) ks)) name \<longleftrightarrow>
     (\<exists>k\<in>set ks. \<exists>c. (name, c) \<in> set counts \<and> str_in k name \<and> singleton_flag name c)"
  by (auto simp: leak_marked_def list_ex_iff suspect_rows_of_def Let_def)

lemma counter_of_twice: "counter_of [x, x] = [(x, 2)]"
  by (simp add: counter_of_def counter_incr_def dict_set_def dict_get_def)

lemma by_count_desc_single [simp]: "by_count_desc [x] = [x]"
  by (simp add: by_count_desc_def)

lemma by_count_desc_Nil [simp]: "by_count_desc [] = []"
  by (simp add: by_count_desc_def)

lemma counter_of_Nil [simp]: "counter_of [] = []"
  by (simp add: counter_of_def)

lemma two_instances_file_report:
  assumes st: "st = count_instance obj2 class_id (count_instance obj1 class_id base)\<lparr>pos := p\<rparr>"
    and base: "class_id_to_name base = [(class_id, name)]" "instance_counts base = []"
      "activity_instances base = []" "service_instances base = []"
  shows "instance_counts st = [(name, 2)]"
    and "leak_suspect (report_of st) name \<longleftrightarrow>
          activity_rule name \<or> service_rule name
          \<or> (\<exists>k\<in>set suspect_keywords. str_in k name) \<and> singleton_flag name 2"
    and "leak_marked (service_rows (report_of st)) name \<longleftrightarrow>
          \<not> activity_rule name \<and> service_rule name"
    and "leak_marked (suspect_rows (report_of st)) name \<longleftrightarrow>
          (\<exists>k\<in>set suspect_keywords. str_in k name) \<and> singleton_flag name 2"
proof -
  have ic: "instance_counts st = [(name, 2)]"
    by (simp add: st base count_instance_def check_key_class_def class_name_of_def Let_def
        dict_get_def counter_incr_def dict_set_def)
  have ai: "map snd (activity_instances st) = (if activity_rule name then [name, name] else [])"
    by (simp add: st base count_instance_def check_key_class_def class_name_of_def Let_def
        dict_get_def)
  have si: "map snd (service_instances st) =
      (if \<not> activity_rule name \<and> service_rule name then [name, name] else [])"
    by (simp add: st base count_instance_def check_key_class_def class_name_of_def Let_def
        dict_get_def)
  show "instance_counts st = [(name, 2)]" by (rule ic)
  have a: "leak_marked (activity_rows (report_of st)) name \<longleftrightarrow> activity_rule name"
    by (simp add: report_of_def ai leak_marked_def counter_of_twice)
  show s: "leak_marked (service_rows (report_of st)) name \<longleftrightarrow>
      \<not> activity_rule name \<and> service_rule name"
    by (simp add: report_of_def si leak_marked_def counter_of_twice)
  show k: "leak_marked (suspect_rows (report_of st)) name \<longleftrightarrow>
      (\<exists>k\<in>set suspect_keywords. str_in k name) \<and> singleton_flag name 2"
    by (simp add: report_of_def leak_marked_suspect_rows ic)
  show "leak_suspect (report_of st) name \<longleftrightarrow>
          activity_rule name \<or> service_rule name
          \<or> (\<exists>k\<in>set suspect_keywords. str_in k name) \<and> singleton_flag name 2"
    unfolding leak_suspect_def a s k by blast
qed

text \<open>
  Claim C1, as amended. For a file with one STRING record defining a class name, one
  LOAD\_CLASS record referencing it and two INSTANCE\_DUMP sub-records of that class, the
  instance count of the name is 2. The class is reported as leak-suspect exactly when
  its name passes the Activity rule or the Service rule, both of which ask for the package
  \<^verbatim>\<open>me/ikate/findmy\<close>, or contains a suspect keyword and a singleton word. So
  \<^verbatim>\<open>me/ikate/findmy/MainActivity\<close> is reported, and \<^verbatim>\<open>com/example/MainActivity\<close> is not.
\<close>

theorem two_instances_count_and_mark:
  assumes "0 \<notin> set magic" and "id_size < 2 ^ 32" and "ts < 2 ^ 32"
    and "str_id < 256 ^ id_bytes id_size" and "id_size + length name < 2 ^ 32"
    and "serial < 2 ^ 32" and "class_id < 256 ^ id_bytes id_size"
    and "obj1 < 256 ^ id_bytes id_size" and "obj2 < 256 ^ id_bytes id_size"
    and "length data1 + length data2 < 2 ^ 31"
    and "res = analyze_hprof
      (two_instances_file magic id_size ts str_id name serial class_id obj1 data1 obj2 data2)"
  shows "counted res name 2 \<and>
    (reported_leak_suspect res name \<longleftrightarrow>
       activity_rule name \<or> service_rule name
       \<or> (\<exists>k\<in>set suspect_keywords. str_in k name) \<and> singleton_flag name 2)"
proof -
  from two_instances_file_state [OF assms(1-10)] obtain st where
    r: "res = Some (Inr (st, report_of st))"
    and st: "st = count_instance obj2 class_id (count_instance obj1 class_id
             (init_state\<lparr>strings := [(str_id, name)], class_names := [(serial, str_id)],
                class_id_to_serial := [(class_id, serial)],
                class_id_to_name := [(class_id, name)],
                record_count := 3, heap_records := 1\<rparr>))\<lparr>pos := pos st\<rparr>"
    unfolding assms(11) by blast
  note rep = two_instances_file_report [OF st]
  have c: "instance_counts st = [(name, 2)]"
    by (rule rep(1)) (simp_all add: init_state_def)
  have l: "leak_suspect (report_of st) name \<longleftrightarrow>
          activity_rule name \<or> service_rule name
          \<or> (\<exists>k\<in>set suspect_keywords. str_in k name) \<and> singleton_flag name 2"
    by (rule rep(2)) (simp_all add: init_state_def)
  from c l show ?thesis
    by (simp add: r counted_def reported_leak_suspect_def dict_get_def)
qed

theorem two_instances_count_and_mark_witness:
  "0 \<notin> set (encode ''JAVA PROFILE 1.0.2'') \<and> (1::nat) < 256 ^ id_bytes 4
   \<and> (100::nat) < 256 ^ id_bytes 4
   \<and> counted (analyze_hprof (two_instances_file (encode ''JAVA PROFILE 1.0.2'') 4 0 1
         ''me/ikate/findmy/MainActivity'' 1 100 7 [] 8 [])) ''me/ikate/findmy/MainActivity'' 2
   \<and> reported_leak_suspect (analyze_hprof (two_instances_file (encode ''JAVA PROFILE 1.0.2'') 4 0 1
         ''me/ikate/findmy/MainActivity'' 1 100 7 [] 8 [])) ''me/ikate/findmy/MainActivity''"
proof -
  have m: "0 \<notin> set (encode ''JAVA PROFILE 1.0.2'')" by code_simp
  have a: "activity_rule ''me/ikate/findmy/MainActivity''" by code_simp
  have i: "id_bytes 4 = 4" by (simp add: id_bytes_def)
  show ?thesis
    using two_instances_count_and_mark [OF m, of 4 0 1 "''me/ikate/findmy/MainActivity''" 1 100 7 8
        "[]" "[]", OF _ _ _ _ _ _ _ _ _ refl] m a
    by (simp add: i)
qed

text \<open>
  Claim C1 as it is written fails on the name of its own example: the count is 2, but the
  class is not reported as leak-suspect.
\<close>

theorem two_instances_not_reported_counterexample:
  "counted (analyze_hprof (two_instances_file (encode ''JAVA PROFILE 1.0.2'') 4 0 1
         ''com/example/MainActivity'' 1 100 7 [] 8 [])) ''com/example/MainActivity'' 2
   \<and> \<not> reported_leak_suspect (analyze_hprof (two_instances_file (encode ''JAVA PROFILE 1.0.2'') 4 0 1
         ''com/example/MainActivity'' 1 100 7 [] 8 [])) ''com/example/MainActivity''"
proof -
  have m: "0 \<notin> set (encode ''JAVA PROFILE 1.0.2'')" by code_simp
  have a: "\<not> activity_rule ''com/example/MainActivity''"
    and b: "\<not> service_rule ''com/example/MainActivity''"
    and c: "\<not> (\<exists>k\<in>set suspect_keywords. str_in k ''com/example/MainActivity'')"
    by code_simp+
  have i: "id_bytes 4 = 4" by (simp add: id_bytes_def)
  have "\<exists>st. analyze_hprof (two_instances_file (encode ''JAVA PROFILE 1.0.2'') 4 0 1
         ''com/example/MainActivity'' 1 100 7 [] 8 []) = Some (Inr (st, report_of st))
       \<and> st = count_instance 8 100 (count_instance 7 100
             (init_state\<lparr>strings := [(1, ''com/example/MainActivity'')], class_names := [(1, 1)],
                class_id_to_serial := [(100, 1)],
                class_id_to_name := [(100, ''com/example/MainActivity'')],
                record_count := 3, heap_records := 1\<rparr>))\<lparr>pos := pos st\<rparr>"
    by (rule two_instances_file_state [OF m]) (simp_all add: i)
  then obtain st where
    r: "analyze_hprof (two_instances_file (encode ''JAVA PROFILE 1.0.2'') 4 0 1
         ''com/example/MainActivity'' 1 100 7 [] 8 []) = Some (Inr (st, report_of st))"
    and st: "st = count_instance 8 100 (count_instance 7 100
             (init_state\<lparr>strings := [(1, ''com/example/MainActivity'')], class_names := [(1, 1)],
                class_id_to_serial := [(100, 1)],
                class_id_to_name := [(100, ''com/example/MainActivity'')],
                record_count := 3, heap_records := 1\<rparr>))\<lparr>pos := pos st\<rparr>"
    by blast
  note rep = two_instances_file_report [OF st]
  have "instance_counts st = [(''com/example/MainActivity'', 2)]"
    by (rule rep(1)) (simp_all add: init_state_def)
  moreover have "\<not> leak_suspect (report_of st) ''com/example/MainActivity''"
    using a b c by (subst rep(2)) (simp_all add: init_state_def)
  ultimately show ?thesis
    unfolding counted_def reported_leak_suspect_def r by (simp add: dict_get_def)
qed

subsection \<open>A STRING record shorter than an identifier\<close>

lemma length_hprof_header [simp]: "length (hprof_header magic id_size timestamp) = length magic + 13"
  by (simp add: hprof_header_def)

lemma length_record_header [simp]: "length (record_header tag ts len) = 9"
  by (simp add: record_header_def)

lemma short_string_record:
  assumes f: "f = hprof_header magic id_size ts0 @ record_header TAG_STRING ts len
      @ be_bytes (id_bytes id_size) str_id @ rest"
    and m: "0 \<notin> set magic" and w: "id_size < 2 ^ 32" and t0: "ts0 < 2 ^ 64"
    and ts: "ts < 2 ^ 32" and len: "len < 2 ^ 32" and sid: "str_id < 256 ^ id_bytes id_size"
  shows "len + 1 = id_size \<Longrightarrow>
           analyze_hprof f =
             Some (Inr (init_state\<lparr>pos := length f, strings := [(str_id, decode rest)],
                          record_count := 1\<rparr>,
                        report_of (init_state\<lparr>pos := length f, strings := [(str_id, decode rest)],
                          record_count := 1\<rparr>)))"
    and "len + 1 < id_size \<Longrightarrow> analyze_hprof f = Some (Inl ValueError)"
proof -
  define s0 where "s0 = init_state\<lparr>pos := length magic + 13\<rparr>"
  define s1 where "s1 = s0\<lparr>pos := pos s0 + 9, record_count := record_count s0 + 1\<rparr>"
  define s2 where "s2 = s1\<lparr>pos := pos s1 + id_bytes id_size\<rparr>"
  define s3 where "s3 = s2\<lparr>pos := pos s2 + length rest\<rparr>"
  define s4 where "s4 = s3\<lparr>strings := dict_set (strings s3) str_id (decode rest)\<rparr>"
  from f have f': "f = hprof_header magic id_size ts0 @ (record_header TAG_STRING ts len
      @ be_bytes (id_bytes id_size) str_id @ rest)" by simp
  have t: "TAG_STRING < 256" by simp
  note h = analyze_hprof_header [OF f' m w t0 s0_def]
  note r1 = records_loop_header [OF h(2) t ts len s1_def]
  note r2 = at_read_id [OF r1(2) sid s2_def]
  from r2(2) have d: "drop (pos s2) f = rest" by (simp add: at_def)
  {
    assume "len + 1 = id_size"
    then have n: "int len - int id_size = - 1" by simp
    have r3: "f_read f (- 1) s2 = Inr (rest, s3)"
      by (simp add: f_read_def maxsize_def d s3_def)
    have b: "record_body f id_size TAG_STRING len s1 = Inr s4"
      by (simp add: record_body_def bindE_def r2(1) n r3 s4_def)
    have "drop (pos s4) f = []"
      using d by (simp add: s4_def s3_def drop_after [of "pos s2" f rest "[]"])
    then have e: "records_loop f id_size s4 = Inr s4"
      by (intro records_loop_eof) (simp add: at_def)
    have "s4 = init_state\<lparr>pos := length f, strings := [(str_id, decode rest)],
                          record_count := 1\<rparr>"
      by (rule hstate.equality)
        (simp_all add: s4_def s3_def s2_def s1_def s0_def init_state_def dict_set_def f)
    with h(1) r1(1) b e
    show "analyze_hprof f =
             Some (Inr (init_state\<lparr>pos := length f, strings := [(str_id, decode rest)],
                          record_count := 1\<rparr>,
                        report_of (init_state\<lparr>pos := length f, strings := [(str_id, decode rest)],
                          record_count := 1\<rparr>)))"
      by simp
  }
  {
    assume "len + 1 < id_size"
    then have n: "int len - int id_size < - 1" by simp
    have b: "record_body f id_size TAG_STRING len s1 = Inl ValueError"
      using n by (simp add: record_body_def bindE_def r2(1) f_read_def maxsize_def)
    with h(1) r1(1) show "analyze_hprof f = Some (Inl ValueError)"
      by simp
  }
qed

text \<open>
  Claim C10, as amended. Line 108 reads \<^verbatim>\<open>length - id_size\<close> bytes. When the declared
  length of a STRING record is exactly one less than the id size of the header, the count
  is -1: the read takes all the remaining bytes of the file as the text, and the record
  loop then stops at the end of the file. When the declared length is smaller still, the
  count is below -1, the read raises \<^verbatim>\<open>ValueError\<close> and the analysis fails.
\<close>

theorem string_record_shorter_than_id:
  assumes "f = hprof_header magic id_size ts0 @ record_header TAG_STRING ts len
      @ be_bytes (id_bytes id_size) str_id @ rest"
    and "0 \<notin> set magic" and "id_size < 2 ^ 32" and "ts0 < 2 ^ 64"
    and "ts < 2 ^ 32" and "len < 2 ^ 32" and "str_id < 256 ^ id_bytes id_size"
    and "st = init_state\<lparr>pos := length f, strings := [(str_id, decode rest)], record_count := 1\<rparr>"
  shows "(len + 1 = id_size \<longrightarrow> analyze_hprof f = Some (Inr (st, report_of st)))
       \<and> (len + 1 < id_size \<longrightarrow> analyze_hprof f = Some (Inl ValueError))"
  using short_string_record [OF assms(1-7)] assms(8) by simp

theorem string_record_shorter_than_id_witness:
  "0 \<notin> set (encode ''JAVA PROFILE 1.0.2'') \<and> (3::nat) + 1 = 4
   \<and> analyze_hprof (hprof_header (encode ''JAVA PROFILE 1.0.2'') 4 0 @ record_header TAG_STRING 0 3
         @ be_bytes (id_bytes 4) 1 @ encode ''all the rest'')
       = Some (Inr (init_state\<lparr>pos := 56, strings := [(1, ''all the rest'')], record_count := 1\<rparr>,
            report_of (init_state\<lparr>pos := 56, strings := [(1, ''all the rest'')],
              record_count := 1\<rparr>)))"
proof -
  have m: "0 \<notin> set (encode ''JAVA PROFILE 1.0.2'')" by code_simp
  show ?thesis
    using string_record_shorter_than_id [OF refl m, of 4 0 0 3 1 _ "encode ''all the rest''", OF _ _ _ _ _ refl] m
    by (simp add: id_bytes_def)
qed

text \<open>
  Claim C10 as it is written fails for a declared length of 0 under id size 4: the read
  count is -4 and the analysis ends with \<^verbatim>\<open>ValueError\<close>.
\<close>

theorem string_record_length_zero_counterexample:
  "analyze_hprof (hprof_header (encode ''JAVA PROFILE 1.0.2'') 4 0 @ record_header TAG_STRING 0 0
     @ be_bytes 4 1 @ encode ''abc'') = Some (Inl ValueError)"
proof -
  have m: "0 \<notin> set (encode ''JAVA PROFILE 1.0.2'')" by code_simp
  show ?thesis
    using short_string_record(2) [OF refl m, of 4 0 0 0 1 "encode ''abc''"]
    by (simp add: id_bytes_def)
qed

subsection \<open>The id size of the header\<close>

lemma header_and_string_file:
  assumes f: "f = hprof_header magic id_size ts0 @ string_record id_size ts str_id txt"
    and m: "0 \<notin> set magic" and w: "id_size < 2 ^ 32" and t0: "ts0 < 2 ^ 64"
    and ts: "ts < 2 ^ 32" and len: "id_size + length txt < 2 ^ 32"
    and sid: "str_id < 256 ^ id_bytes id_size"
    and st: "st = init_state\<lparr>pos := length f, strings := [(str_id, decode txt)],
                          record_count := 1\<rparr>"
  shows "analyze_hprof f = Some (Inr (st, report_of st))"
proof -
  define s0 where "s0 = init_state\<lparr>pos := length magic + 13\<rparr>"
  define s1 where "s1 = s0\<lparr>pos := pos s0 + (9 + id_bytes id_size + length txt),
                 strings := dict_set (strings s0) str_id (decode txt),
                 record_count := record_count s0 + 1\<rparr>"
  from f have f': "f = hprof_header magic id_size ts0 @ (string_record id_size ts str_id txt @ [])"
    by simp
  note h = analyze_hprof_header [OF f' m w t0 s0_def]
  note r1 = records_loop_string [OF h(2) ts len sid s1_def]
  note e = records_loop_eof [OF r1(2)]
  have "s1 = st"
    by (rule hstate.equality)
      (simp_all add: s1_def s0_def st init_state_def dict_set_def f string_record_def)
  with h(1) r1(1) e show ?thesis by simp
qed




subsection \<open>Two runs on the same file\<close>


subsection \<open>The end of a heap dump segment\<close>

lemma sub_record_unknown:
  "sub_tag \<notin> set known_sub_tags \<Longrightarrow>
     sub_record f id_size end_pos sub_tag st = Inr (Break (f_seek end_pos st))"
  by (simp add: known_sub_tags_def sub_record_def)

lemma sub_record_Break:
  "sub_record f id_size end_pos sub_tag st = Inr (Break st2) \<Longrightarrow> st2 = f_seek end_pos st"
  unfolding sub_record_def by (auto split: if_splits elim!: bindE_InrE)

lemma read_uint_tables:
  "read_uint f n st = Inr (v, st1) \<Longrightarrow> st1 = st\<lparr>pos := pos st + n\<rparr>"
  by (auto simp: read_uint_def f_read_def unpack_def Let_def bindE_def split: if_splits)

lemma heap_loop_reaches_unknown:
  assumes "reaches_unknown f id_size end_pos st su"
  shows "heap_loop f id_size end_pos st = Inr (su\<lparr>pos := end_pos\<rparr>)"
  using assms
proof (induction rule: reaches_unknown.induct)
  case (here st sub_tag st1)
  from here(2) have "st1 = st\<lparr>pos := pos st + 1\<rparr>" by (rule read_uint_tables)
  then have "f_seek end_pos st1 = st\<lparr>pos := end_pos\<rparr>" by (simp add: f_seek_def)
  with here show ?case
    by (subst heap_loop.simps) (simp add: sub_record_unknown)
next
  case (later st sub_tag st1 st2 su)
  then show ?case
    by (subst heap_loop.simps) simp
qed

lemma heap_loop_end:
  "heap_loop f id_size end_pos st = Inr st' \<Longrightarrow> end_pos \<le> pos st'"
proof (induction f id_size end_pos st rule: heap_loop.induct)
  case (1 f id_size end_pos st)
  show ?case
  proof (cases "pos st < end_pos")
    case False
    with "1.prems" show ?thesis by (simp add: heap_loop.simps)
  next
    case True
    from "1.prems" True obtain sub_tag st1 fl
      where r: "read_uint f 1 st = Inr (sub_tag, st1)"
        and s: "sub_record f id_size end_pos sub_tag st1 = Inr fl"
      by (auto simp: heap_loop.simps [of f id_size end_pos st] split: sum.splits)
    show ?thesis
    proof (cases fl)
      case (Next st2)
      with "1.prems" True r s have "heap_loop f id_size end_pos st2 = Inr st'"
        by (simp add: heap_loop.simps [of f id_size end_pos st])
      with "1.IH" [OF True r refl s Next] show ?thesis by simp
    next
      case (Break st2)
      with "1.prems" True r s have "st' = st2"
        by (simp add: heap_loop.simps [of f id_size end_pos st])
      moreover from s Break have "st2 = f_seek end_pos st1" by (simp add: sub_record_Break)
      ultimately show ?thesis by (simp add: f_seek_def)
    qed
  qed
qed




subsection \<open>After an unknown sub-tag\<close>



subsection \<open>What a run can change\<close>

text \<open>
  The reads move the cursor and nothing else, so a property of the tables that the few
  table updates of the source preserve holds at the end of every run that returns.
\<close>

lemma f_read_moves:
  "f_read f n st = Inr (b, st1) \<Longrightarrow> \<exists>p. st1 = st\<lparr>pos := p\<rparr>"
  by (auto simp: f_read_def Let_def split: if_splits)

lemma read_uint_moves:
  "read_uint f n st = Inr (v, st1) \<Longrightarrow> \<exists>p. st1 = st\<lparr>pos := p\<rparr>"
  by (auto dest: read_uint_tables)

lemma read_id_moves:
  "read_id f id_size st = Inr (v, st1) \<Longrightarrow> \<exists>p. st1 = st\<lparr>pos := p\<rparr>"
  by (auto simp: read_id_def dest: read_uint_tables split: if_splits)

lemma constant_pool_moves:
  "constant_pool f id_size n st = Inr (u, st1) \<Longrightarrow> \<exists>p. st1 = st\<lparr>pos := p\<rparr>"
proof (induction n arbitrary: st u)
  case 0
  then show ?case by (auto intro: exI [of _ "pos st"])
next
  case (Suc n)
  from Suc.prems show ?case
    by (auto elim!: bindE_InrE dest!: read_uint_moves f_read_moves Suc.IH)
qed

lemma static_fields_moves:
  "static_fields f id_size n st = Inr (u, st1) \<Longrightarrow> \<exists>p. st1 = st\<lparr>pos := p\<rparr>"
proof (induction n arbitrary: st u)
  case 0
  then show ?case by (auto intro: exI [of _ "pos st"])
next
  case (Suc n)
  from Suc.prems show ?case
    by (auto elim!: bindE_InrE dest!: read_uint_moves read_id_moves f_read_moves Suc.IH)
qed

lemma instance_fields_moves:
  "instance_fields f id_size n st = Inr (u, st1) \<Longrightarrow> \<exists>p. st1 = st\<lparr>pos := p\<rparr>"
proof (induction n arbitrary: st u)
  case 0
  then show ?case by (auto intro: exI [of _ "pos st"])
next
  case (Suc n)
  from Suc.prems show ?case
    by (auto elim!: bindE_InrE dest!: read_uint_moves read_id_moves Suc.IH)
qed

lemma sub_record_invariant:
  assumes r: "sub_record f id_size end_pos sub_tag st = Inr fl" and P: "P st"
    and pos: "\<And>st p. P (st\<lparr>pos := p\<rparr>) = P st"
    and sup: "\<And>st x. P (st\<lparr>class_super := x\<rparr>) = P st"
    and root: "\<And>st r obj_id. P (add_root r obj_id st) = P st"
    and inst: "\<And>st obj_id class_id. P st \<Longrightarrow> P (count_instance obj_id class_id st)"
  shows "P (flow_state fl)"
  using r P unfolding sub_record_def
  by (auto split: if_splits elim!: bindE_InrE
      dest!: read_uint_moves read_id_moves f_read_moves constant_pool_moves static_fields_moves
        instance_fields_moves
      simp: pos sup root f_seek_def intro!: inst)

lemma heap_loop_invariant:
  assumes r: "heap_loop f id_size end_pos st = Inr st'" and P: "P st"
    and pos: "\<And>st p. P (st\<lparr>pos := p\<rparr>) = P st"
    and sup: "\<And>st x. P (st\<lparr>class_super := x\<rparr>) = P st"
    and root: "\<And>st r obj_id. P (add_root r obj_id st) = P st"
    and inst: "\<And>st obj_id class_id. P st \<Longrightarrow> P (count_instance obj_id class_id st)"
  shows "P st'"
  using r P
proof (induction f id_size end_pos st rule: heap_loop.induct)
  case (1 f id_size end_pos st)
  show ?case
  proof (cases "pos st < end_pos")
    case False
    with "1.prems" show ?thesis by (simp add: heap_loop.simps)
  next
    case True
    from "1.prems" True obtain sub_tag st1 fl
      where r: "read_uint f 1 st = Inr (sub_tag, st1)"
        and s: "sub_record f id_size end_pos sub_tag st1 = Inr fl"
      by (auto simp: heap_loop.simps [of f id_size end_pos st] split: sum.splits)
    from r "1.prems"(2) have "P st1" by (auto dest!: read_uint_moves simp: pos)
    from sub_record_invariant [of f id_size end_pos sub_tag st1 fl P, OF s this pos sup root inst]
    have fl: "P (flow_state fl)" .
    show ?thesis
    proof (cases fl)
      case (Next st2)
      with "1.prems" True r s have "heap_loop f id_size end_pos st2 = Inr st'"
        by (simp add: heap_loop.simps [of f id_size end_pos st])
      with "1.IH" [OF True r refl s Next] fl Next show ?thesis by simp
    next
      case (Break st2)
      with "1.prems" True r s have "st' = st2"
        by (simp add: heap_loop.simps [of f id_size end_pos st])
      with fl Break show ?thesis by simp
    qed
  qed
qed

lemma record_body_invariant:
  assumes r: "record_body f id_size tag len st = Inr st'" and P: "P st"
    and pos: "\<And>st p. P (st\<lparr>pos := p\<rparr>) = P st"
    and sup: "\<And>st x. P (st\<lparr>class_super := x\<rparr>) = P st"
    and root: "\<And>st r obj_id. P (add_root r obj_id st) = P st"
    and inst: "\<And>st obj_id class_id. P st \<Longrightarrow> P (count_instance obj_id class_id st)"
    and str: "\<And>st k v. P st \<Longrightarrow> P (st\<lparr>strings := dict_set (strings st) k v\<rparr>)"
    and load: "\<And>st serial class_obj_id name_id. P st \<Longrightarrow> P (load_class serial class_obj_id name_id st)"
    and hr: "\<And>st n. P (st\<lparr>heap_records := n\<rparr>) = P st"
  shows "P st'"
proof -
  consider (is_string) "tag = TAG_STRING" | (is_load) "tag = TAG_LOAD_CLASS"
    | (is_heap) "tag = TAG_HEAP_DUMP \<or> tag = TAG_HEAP_DUMP_SEGMENT"
    | (other) "tag \<noteq> TAG_STRING" "tag \<noteq> TAG_LOAD_CLASS" "tag \<noteq> TAG_HEAP_DUMP"
      "tag \<noteq> TAG_HEAP_DUMP_SEGMENT"
    by blast
  then show ?thesis
  proof cases
    case is_string
    with r P show ?thesis
      unfolding record_body_def
      by (auto elim!: bindE_InrE dest!: read_id_moves f_read_moves simp: pos intro!: str)
  next
    case is_load
    with r P show ?thesis
      unfolding record_body_def
      by (auto elim!: bindE_InrE dest!: read_id_moves read_uint_moves simp: pos intro!: load)
  next
    case is_heap
    with r have "heap_loop f id_size (pos st + len) (st\<lparr>heap_records := heap_records st + 1\<rparr>) = Inr st'"
      unfolding record_body_def Let_def by auto
    from heap_loop_invariant [of f id_size _ _ st' P, OF this _ pos sup root inst] P
    show ?thesis by (simp add: hr)
  next
    case other
    with r P show ?thesis
      unfolding record_body_def
      by (auto elim!: bindE_InrE dest!: f_read_moves simp: pos)
  qed
qed

lemma records_loop_invariant:
  assumes r: "records_loop f id_size st = Inr st'" and P: "P st"
    and pos: "\<And>st p. P (st\<lparr>pos := p\<rparr>) = P st"
    and sup: "\<And>st x. P (st\<lparr>class_super := x\<rparr>) = P st"
    and root: "\<And>st r obj_id. P (add_root r obj_id st) = P st"
    and inst: "\<And>st obj_id class_id. P st \<Longrightarrow> P (count_instance obj_id class_id st)"
    and str: "\<And>st k v. P st \<Longrightarrow> P (st\<lparr>strings := dict_set (strings st) k v\<rparr>)"
    and load: "\<And>st serial class_obj_id name_id. P st \<Longrightarrow> P (load_class serial class_obj_id name_id st)"
    and hr: "\<And>st n. P (st\<lparr>heap_records := n\<rparr>) = P st"
    and rc: "\<And>st n. P (st\<lparr>record_count := n\<rparr>) = P st"
  shows "P st'"
  using r P
proof (induction f id_size st rule: records_loop.induct)
  case (1 f id_size st)
  obtain tag_bytes st1 where r0: "f_read f 1 st = Inr (tag_bytes, st1)"
    by (auto simp: f_read_def maxsize_def Let_def)
  from r0 "1.prems"(2) have P1: "P st1" by (auto dest!: f_read_moves simp: pos)
  show ?case
  proof (cases "tag_bytes = []")
    case True
    with "1.prems" r0 have "st' = st1" by (simp add: records_loop.simps [of f id_size st])
    with P1 show ?thesis by simp
  next
    case False
    from "1.prems"(1) r0 False obtain tag ts st2 len st3 st4 where
      u: "unpack 1 tag_bytes = Inr tag"
      and r1: "read_uint f 4 st1 = Inr (ts, st2)"
      and r2: "read_uint f 4 st2 = Inr (len, st3)"
      and b: "record_body f id_size tag len (st3\<lparr>record_count := record_count st3 + 1\<rparr>) = Inr st4"
      and l: "records_loop f id_size st4 = Inr st'"
      by (auto simp: records_loop.simps [of f id_size st] split: sum.splits)
    from r1 r2 P1 have "P (st3\<lparr>record_count := record_count st3 + 1\<rparr>)"
      by (auto dest!: read_uint_moves simp: pos rc)
    from record_body_invariant [of f id_size tag len _ st4 P, OF b this pos sup root inst str load hr]
    have "P st4" .
    from "1.IH" [OF r0 refl False u r1 refl r2 refl b l this] show ?thesis .
  qed
qed

lemma analyze_hprof_invariant:
  assumes r: "analyze_hprof f = Some (Inr (st, rep))" and P: "P init_state"
    and pos: "\<And>st p. P (st\<lparr>pos := p\<rparr>) = P st"
    and sup: "\<And>st x. P (st\<lparr>class_super := x\<rparr>) = P st"
    and root: "\<And>st r obj_id. P (add_root r obj_id st) = P st"
    and inst: "\<And>st obj_id class_id. P st \<Longrightarrow> P (count_instance obj_id class_id st)"
    and str: "\<And>st k v. P st \<Longrightarrow> P (st\<lparr>strings := dict_set (strings st) k v\<rparr>)"
    and load: "\<And>st serial class_obj_id name_id. P st \<Longrightarrow> P (load_class serial class_obj_id name_id st)"
    and hr: "\<And>st n. P (st\<lparr>heap_records := n\<rparr>) = P st"
    and rc: "\<And>st n. P (st\<lparr>record_count := n\<rparr>) = P st"
  shows "P st \<and> rep = report_of st"
proof -
  from r obtain header s0 where h: "read_header f [] init_state = Some (Inr (header, s0))"
    by (auto simp: analyze_hprof_def split: option.splits sum.splits)
  then have "0 \<in> set (drop (pos init_state) f)" by (rule read_header_Some_nul)
  then obtain magic rest where d: "drop (pos init_state) f = magic @ 0 # rest" and m: "0 \<notin> set magic"
    by (auto dest: split_list_first)
  from read_header_found [OF d m, of "[]"] h
  have s0: "s0 = init_state\<lparr>pos := pos init_state + length magic + 1\<rparr>" by simp
  with P have P0: "P s0" by (simp add: pos)
  from r h obtain id_size s1 ts s2 where
    "read_uint f 4 s0 = Inr (id_size, s1)" "read_uint f 8 s1 = Inr (ts, s2)"
    and l: "records_loop f id_size s2 = Inr st" and rep: "rep = report_of st"
    by (auto simp: analyze_hprof_def elim!: bindE_InrE split: sum.splits)
  with P0 have "P s2" by (auto dest!: read_uint_moves simp: pos)
  from records_loop_invariant [of f id_size s2 st P, OF l this pos sup root inst str load hr rc] rep
  show ?thesis by simp
qed

subsection \<open>The name of a class\<close>

lemma instance_counts_count_instance:
  "instance_counts (count_instance obj_id class_id st) =
     counter_incr (instance_counts st) (class_name_of st class_id)"
  by (simp add: count_instance_def check_key_class_def Let_def)

lemma resolution_file_counts:
  assumes m: "0 \<notin> set magic" and w: "id_size < 2 ^ 32" and ts: "ts < 2 ^ 32"
    and sid: "str_id < 256 ^ id_bytes id_size" and nl: "id_size + length name < 2 ^ 32"
    and ser: "serial < 2 ^ 32" and cid: "class_id < 256 ^ id_bytes id_size"
    and o1: "obj_id < 256 ^ id_bytes id_size"
    and dl: "length data < 2 ^ 31"
  shows "\<exists>st. analyze_hprof
             (resolution_file string_first magic id_size ts str_id name serial class_id obj_id data)
           = Some (Inr (st, report_of st))
         \<and> instance_counts st =
             [(if string_first then name else ''unknown_'' @ hex class_id, 1)]"
proof -
  let ?f = "resolution_file string_first magic id_size ts str_id name serial class_id obj_id data"
  let ?S = "string_record id_size ts str_id (encode name)"
  let ?L = "load_class_record id_size ts serial class_id 0 str_id"
  let ?i1 = "instance_dump id_size obj_id 0 class_id data"
  let ?idb = "id_bytes id_size"
  let ?H = "record_header TAG_HEAP_DUMP ts (length ?i1) @ ?i1 @ []"
  have idb: "?idb \<le> 8" by (simp add: id_bytes_def)
  define s0 where "s0 = init_state\<lparr>pos := length magic + 13\<rparr>"
  from ts have ts64: "ts < 2 ^ 64" by simp
  from nl have nl': "id_size + length (encode name) < 2 ^ 32" by simp
  from dl idb have bl: "length ?i1 < 2 ^ 32" by simp
  from dl have d1: "length data < 2 ^ 32" by simp
  have z: "(0::nat) < 2 ^ 32" by simp
  have tail: "\<exists>st. records_loop ?f id_size s2 = Inr st \<and>
      instance_counts st = counter_incr (instance_counts s2) (class_name_of s2 class_id)"
    if a: "at ?f s2 ?H" for s2
  proof -
    define s3 where "s3 = s2\<lparr>pos := pos s2 + 9, record_count := record_count s2 + 1,
                heap_records := heap_records s2 + 1\<rparr>"
    define s4 where "s4 = count_instance obj_id class_id
                (s3\<lparr>pos := pos s3 + (9 + 2 * ?idb + length data)\<rparr>)"
    define end_pos where "end_pos = pos s2 + 9 + length ?i1"
    note r3 = records_loop_heap_dump [OF a disjI1 [OF refl] ts bl s3_def, folded end_pos_def]
    have p3: "pos s3 < end_pos" by (simp add: s3_def end_pos_def)
    note r4 = heap_loop_instance_dump [OF r3(2) p3 o1 z cid d1 s4_def]
    have p4: "\<not> pos s4 < end_pos" by (simp add: s4_def s3_def end_pos_def)
    have "records_loop ?f id_size s2 = Inr s4"
      by (simp only: r3(1) r4(1) heap_loop_done [OF p4] records_loop_eof [OF r4(2)] sum.case)
    moreover have "instance_counts s4 =
        counter_incr (instance_counts s2) (class_name_of s2 class_id)"
      by (simp add: s4_def s3_def instance_counts_count_instance class_name_of_def)
    ultimately show ?thesis by blast
  qed
  show ?thesis
  proof (cases string_first)
    case True
    define s1 where "s1 = s0\<lparr>pos := pos s0 + (9 + ?idb + length (encode name)),
                 strings := dict_set (strings s0) str_id (decode (encode name)),
                 record_count := record_count s0 + 1\<rparr>"
    define s2 where "s2 = load_class serial class_id str_id
                (s1\<lparr>pos := pos s1 + (17 + 2 * ?idb), record_count := record_count s1 + 1\<rparr>)"
    from True have f: "?f = hprof_header magic id_size ts @ (?S @ ?L @ ?H)"
      by (simp add: resolution_file_def heap_dump_record_def)
    note h = analyze_hprof_header [OF f m w ts64 s0_def]
    note r1 = records_loop_string [OF h(2) ts nl' sid s1_def]
    note r2 = records_loop_load_class [OF r1(2) ts ser cid z sid s2_def]
    from tail [OF r2(2)] obtain st where st: "records_loop ?f id_size s2 = Inr st"
      "instance_counts st = counter_incr (instance_counts s2) (class_name_of s2 class_id)"
      by blast
    have "analyze_hprof ?f = Some (Inr (st, report_of st))"
      by (simp only: h(1) r1(1) r2(1) st(1) sum.case)
    moreover have "instance_counts s2 = []" "class_name_of s2 class_id = name"
      by (simp_all add: s2_def s1_def s0_def init_state_def load_class_def dict_set_def
          class_name_of_def dict_get_def)
    ultimately show ?thesis
      using True st(2) by (auto simp: counter_incr_def dict_set_def dict_get_def)
  next
    case False
    define s1 where "s1 = load_class serial class_id str_id
                (s0\<lparr>pos := pos s0 + (17 + 2 * ?idb), record_count := record_count s0 + 1\<rparr>)"
    define s2 where "s2 = s1\<lparr>pos := pos s1 + (9 + ?idb + length (encode name)),
                 strings := dict_set (strings s1) str_id (decode (encode name)),
                 record_count := record_count s1 + 1\<rparr>"
    from False have f: "?f = hprof_header magic id_size ts @ (?L @ ?S @ ?H)"
      by (simp add: resolution_file_def heap_dump_record_def)
    note h = analyze_hprof_header [OF f m w ts64 s0_def]
    note r1 = records_loop_load_class [OF h(2) ts ser cid z sid s1_def]
    note r2 = records_loop_string [OF r1(2) ts nl' sid s2_def]
    from tail [OF r2(2)] obtain st where st: "records_loop ?f id_size s2 = Inr st"
      "instance_counts st = counter_incr (instance_counts s2) (class_name_of s2 class_id)"
      by blast
    have "analyze_hprof ?f = Some (Inr (st, report_of st))"
      by (simp only: h(1) r1(1) r2(1) st(1) sum.case)
    moreover have "instance_counts s2 = []" "class_name_of s2 class_id = ''unknown_'' @ hex class_id"
      by (simp_all add: s2_def s1_def s0_def init_state_def load_class_def dict_set_def
          class_name_of_def dict_get_def)
    ultimately show ?thesis
      using False st(2) by (auto simp: counter_incr_def dict_set_def dict_get_def)
  qed
qed

lemma map_of_dict_set: "map_of (dict_set d k v) = (map_of d)(k \<mapsto> v)"
  by (simp add: dict_set_def update_conv')

lemma class_id_to_name_count_instance [simp]:
  "class_id_to_name (count_instance obj_id class_id st) = class_id_to_name st"
  by (simp add: count_instance_def check_key_class_def Let_def)

lemma resolved_stays:
  assumes "records_loop f id_size st = Inr st'" and "map_of (class_id_to_name st) c \<noteq> None"
  shows "map_of (class_id_to_name st') c \<noteq> None"
  by (rule records_loop_invariant [of f id_size st st' "\<lambda>st. map_of (class_id_to_name st) c \<noteq> None",
        OF assms])
    (auto simp: add_root_def load_class_def Let_def map_of_dict_set split: option.splits)




subsection \<open>The GC roots\<close>

lemma counter_of_snoc: "counter_of (xs @ [x]) = counter_incr (counter_of xs) x"
  by (simp add: counter_of_def)

lemma distinct_counter_incr:
  "distinct (map fst c) \<Longrightarrow> distinct (map fst (counter_incr c k))"
  by (simp add: counter_incr_def dict_set_def distinct_update)

lemma distinct_counter_of: "distinct (map fst (counter_of xs))"
proof (induction xs rule: rev_induct)
  case Nil
  then show ?case by (simp add: counter_of_def)
next
  case (snoc x xs)
  then show ?case by (simp add: counter_of_snoc distinct_counter_incr)
qed

lemma map_of_insort_key:
  "fst x \<notin> fst ` set xs \<Longrightarrow> map_of (insort_key f x xs) = (map_of xs)(fst x \<mapsto> snd x)"
proof (induction xs)
  case Nil
  then show ?case by simp
next
  case (Cons y ys)
  then have "fst x \<noteq> fst y" and "fst x \<notin> fst ` set ys" by auto
  with Cons.IH show ?case by (auto simp: fun_upd_twist)
qed

lemma map_of_by_count_desc:
  assumes "distinct (map fst items)"
  shows "map_of (by_count_desc items) = map_of items"
  using assms unfolding by_count_desc_def
proof (induction items)
  case Nil
  then show ?case by simp
next
  case (Cons x xs)
  let ?k = "\<lambda>x::'a \<times> nat. - int (snd x)"
  from Cons.prems have d: "distinct (map fst xs)" and n: "fst x \<notin> fst ` set xs" by auto
  from n have "fst x \<notin> fst ` set (sort_key ?k xs)" by simp
  then have "map_of (insort_key ?k x (sort_key ?k xs)) =
      (map_of (sort_key ?k xs))(fst x \<mapsto> snd x)"
    by (rule map_of_insort_key)
  also have "\<dots> = (map_of xs)(fst x \<mapsto> snd x)"
    using Cons.IH [OF d] by simp
  finally show ?case by (cases x) simp
qed

lemma dict_get_counter_incr:
  "dict_get (counter_incr c k) k 0 = dict_get c k 0 + 1"
  by (simp add: counter_incr_def dict_get_def map_of_dict_set)

lemma root_rows_add_root:
  "dict_get (root_rows (report_of (add_root root_type obj_id st))) root_type 0 =
     dict_get (root_rows (report_of st)) root_type 0 + 1"
proof -
  have "dict_get (by_count_desc (counter_of (map fst (gc_roots st) @ [root_type]))) root_type 0 =
      dict_get (counter_of (map fst (gc_roots st) @ [root_type])) root_type 0"
    by (simp add: dict_get_def map_of_by_count_desc distinct_counter_of)
  moreover have "dict_get (by_count_desc (counter_of (map fst (gc_roots st)))) root_type 0 =
      dict_get (counter_of (map fst (gc_roots st))) root_type 0"
    by (simp add: dict_get_def map_of_by_count_desc distinct_counter_of)
  ultimately show ?thesis
    by (simp add: report_of_def add_root_def counter_of_snoc dict_get_counter_incr)
qed

lemma sub_record_recorded_root:
  assumes "sub_record f id_size end_pos sub_tag st = Inr (Next st')"
    and "(sub_tag, root_type) \<in> set recorded_roots"
  shows "\<exists>obj_id st1 p. read_id f id_size st = Inr (obj_id, st1)
           \<and> st' = add_root root_type obj_id (st\<lparr>pos := p\<rparr>)"
  using assms unfolding sub_record_def recorded_roots_def
  by (auto elim!: bindE_InrE dest!: read_uint_moves) (auto dest!: read_id_moves)

lemma sub_record_unrecorded_root:
  assumes "sub_record f id_size end_pos sub_tag st = Inr (Next st')"
    and "sub_tag \<in> set unrecorded_roots"
  shows "st' = st\<lparr>pos := pos st + id_bytes id_size\<rparr>"
  using assms unfolding sub_record_def unrecorded_roots_def
  by (auto elim!: bindE_InrE simp: read_id_def id_bytes_def dest!: read_uint_tables
      split: if_splits)




subsection \<open>The categories of a class\<close>

lemma first_match_only_count_instance:
  "first_match_only st \<Longrightarrow> first_match_only (count_instance obj_id class_id st)"
  by (simp add: first_match_only_def count_instance_def check_key_class_def Let_def)

lemma first_match_only_run:
  assumes "analyze_hprof f = Some (Inr (st, r))"
  shows "first_match_only st \<and> r = report_of st"
  by (rule analyze_hprof_invariant [of f st r first_match_only, OF assms])
    (simp_all add: first_match_only_def init_state_def add_root_def load_class_def Let_def
      first_match_only_count_instance [unfolded first_match_only_def]
      split: option.splits)

lemma suspect_rows_iff:
  "(name, c, fl) \<in> set (suspect_rows (report_of st)) \<longleftrightarrow>
     (name, c) \<in> set (instance_counts st) \<and> (\<exists>k\<in>set suspect_keywords. str_in k name)
       \<and> fl = singleton_flag name c"
  by (auto simp: report_of_def suspect_rows_of_def Let_def)

text \<open>
  Claim C5, as amended. Of the four category lists filled while decoding (Activity,
  Service, scope, View/Fragment), an instance enters at most one, that of the first rule
  its class name passes. The section of the suspect singletons is made apart from them,
  from the instance counts alone: a counted class is listed there exactly when its name
  contains a suspect keyword, whatever its count and its category list, and its row is
  marked exactly when the count is above 1 and the name contains one of Manager, Service,
  Repository, Singleton, ViewModel.
\<close>

theorem classifier_first_match_and_suspects:
  assumes "analyze_hprof f = Some (Inr (st, r))"
  shows "first_match_only st
       \<and> (\<forall>name c fl. (name, c, fl) \<in> set (suspect_rows r) \<longleftrightarrow>
            (name, c) \<in> set (instance_counts st) \<and> (\<exists>k\<in>set suspect_keywords. str_in k name)
              \<and> fl = singleton_flag name c)"
  using first_match_only_run [OF assms] by (simp add: suspect_rows_iff)

theorem classifier_first_match_and_suspects_witness:
  "\<exists>st r. analyze_hprof (two_instances_file (encode ''JAVA PROFILE 1.0.2'') 4 0 1
        ''me/ikate/findmy/service/LocationMqttService'' 1 100 7 [] 8 []) = Some (Inr (st, r))
     \<and> first_match_only st
     \<and> (\<forall>name c fl. (name, c, fl) \<in> set (suspect_rows r) \<longleftrightarrow>
            (name, c) \<in> set (instance_counts st) \<and> (\<exists>k\<in>set suspect_keywords. str_in k name)
              \<and> fl = singleton_flag name c)"
proof -
  have m: "0 \<notin> set (encode ''JAVA PROFILE 1.0.2'')" by code_simp
  have "\<exists>st. analyze_hprof (two_instances_file (encode ''JAVA PROFILE 1.0.2'') 4 0 1
         ''me/ikate/findmy/service/LocationMqttService'' 1 100 7 [] 8 []) = Some (Inr (st, report_of st))
       \<and> st = count_instance 8 100 (count_instance 7 100
             (init_state\<lparr>strings := [(1, ''me/ikate/findmy/service/LocationMqttService'')],
                class_names := [(1, 1)], class_id_to_serial := [(100, 1)],
                class_id_to_name := [(100, ''me/ikate/findmy/service/LocationMqttService'')],
                record_count := 3, heap_records := 1\<rparr>))\<lparr>pos := pos st\<rparr>"
    by (rule two_instances_file_state [OF m]) (simp_all add: id_bytes_def)
  then obtain st where
    r: "analyze_hprof (two_instances_file (encode ''JAVA PROFILE 1.0.2'') 4 0 1
         ''me/ikate/findmy/service/LocationMqttService'' 1 100 7 [] 8 []) = Some (Inr (st, report_of st))"
    by blast
  from classifier_first_match_and_suspects [OF r] r show ?thesis by blast
qed

text \<open>
  Claim C5 as it is written fails on a class that passes the Service rule and contains a
  suspect keyword: with two instances it is marked in the Service section and in the
  section of the suspect singletons as well.
\<close>

theorem service_and_suspect_counterexample:
  "marked_in service_rows (analyze_hprof (two_instances_file (encode ''JAVA PROFILE 1.0.2'') 4 0 1
        ''me/ikate/findmy/service/LocationMqttService'' 1 100 7 [] 8 []))
      ''me/ikate/findmy/service/LocationMqttService''
   \<and> marked_in suspect_rows (analyze_hprof (two_instances_file (encode ''JAVA PROFILE 1.0.2'') 4 0 1
        ''me/ikate/findmy/service/LocationMqttService'' 1 100 7 [] 8 []))
      ''me/ikate/findmy/service/LocationMqttService''"
proof -
  have m: "0 \<notin> set (encode ''JAVA PROFILE 1.0.2'')" by code_simp
  have a: "\<not> activity_rule ''me/ikate/findmy/service/LocationMqttService''"
    and b: "service_rule ''me/ikate/findmy/service/LocationMqttService''"
    and c: "\<exists>k\<in>set suspect_keywords. str_in k ''me/ikate/findmy/service/LocationMqttService''"
    and d: "singleton_flag ''me/ikate/findmy/service/LocationMqttService'' 2"
    by code_simp+
  have "\<exists>st. analyze_hprof (two_instances_file (encode ''JAVA PROFILE 1.0.2'') 4 0 1
         ''me/ikate/findmy/service/LocationMqttService'' 1 100 7 [] 8 []) = Some (Inr (st, report_of st))
       \<and> st = count_instance 8 100 (count_instance 7 100
             (init_state\<lparr>strings := [(1, ''me/ikate/findmy/service/LocationMqttService'')],
                class_names := [(1, 1)], class_id_to_serial := [(100, 1)],
                class_id_to_name := [(100, ''me/ikate/findmy/service/LocationMqttService'')],
                record_count := 3, heap_records := 1\<rparr>))\<lparr>pos := pos st\<rparr>"
    by (rule two_instances_file_state [OF m]) (simp_all add: id_bytes_def)
  then obtain st where
    r: "analyze_hprof (two_instances_file (encode ''JAVA PROFILE 1.0.2'') 4 0 1
         ''me/ikate/findmy/service/LocationMqttService'' 1 100 7 [] 8 []) = Some (Inr (st, report_of st))"
    and st: "st = count_instance 8 100 (count_instance 7 100
             (init_state\<lparr>strings := [(1, ''me/ikate/findmy/service/LocationMqttService'')],
                class_names := [(1, 1)], class_id_to_serial := [(100, 1)],
                class_id_to_name := [(100, ''me/ikate/findmy/service/LocationMqttService'')],
                record_count := 3, heap_records := 1\<rparr>))\<lparr>pos := pos st\<rparr>"
    by blast
  note rep = two_instances_file_report [OF st]
  have "leak_marked (service_rows (report_of st)) ''me/ikate/findmy/service/LocationMqttService''"
    using a b by (subst rep(3)) (simp_all add: init_state_def)
  moreover
  have "leak_marked (suspect_rows (report_of st)) ''me/ikate/findmy/service/LocationMqttService''"
    using c d by (subst rep(4)) (simp_all add: init_state_def)
  ultimately show ?thesis
    unfolding marked_in_def r by simp
qed

end
